theory Spec2Isabelle
  imports Main
begin

section \<open>Strings\<close>

text \<open>
  Python strings are modelled as \<open>string\<close>. The texts that matter here (feature names,
  exception messages, version strings) are taken to be ASCII, where \<open>str.lower\<close> maps
  \<open>A\<close>..\<open>Z\<close> to \<open>a\<close>..\<open>z\<close> and leaves every other character alone.
\<close>

definition lower_char :: "char \<Rightarrow> char" where
  "lower_char c =
     (let n = (of_char c :: nat) in if 65 \<le> n \<and> n \<le> 90 then char_of (n + 32) else c)"

definition lower :: "string \<Rightarrow> string" where
  "lower s = map lower_char s"

text \<open>\<open>s.startswith(p)\<close>\<close>

fun startswith :: "string \<Rightarrow> string \<Rightarrow> bool" where
  "startswith s [] = True"
| "startswith [] (p # ps) = False"
| "startswith (c # cs) (p # ps) = (c = p \<and> startswith cs ps)"

text \<open>\<open>x in s\<close> on strings: \<open>x\<close> occurs in \<open>s\<close> as a contiguous substring.\<close>

fun contains :: "string \<Rightarrow> string \<Rightarrow> bool" where
  "contains [] x = (x = [])"
| "contains (c # cs) x = (startswith (c # cs) x \<or> contains cs x)"

text \<open>\<open>s.split(",")\<close>: one piece per comma plus one, empty pieces kept.\<close>

fun split_comma :: "string \<Rightarrow> string list" where
  "split_comma [] = [[]]"
| "split_comma (c # cs) =
     (if c = CHR '','' then [] # split_comma cs
      else (case split_comma cs of [] \<Rightarrow> [[c]] | w # ws \<Rightarrow> (c # w) # ws))"

text \<open>\<open>sep.join(xs)\<close>\<close>

fun join :: "string \<Rightarrow> string list \<Rightarrow> string" where
  "join sep [] = []"
| "join sep [x] = x"
| "join sep (x # y # ys) = x @ sep @ join sep (y # ys)"

section \<open>Configuration\<close>

text \<open>
  The two phrase lists and the list of available features, as the module defines them.
\<close>

definition secret_scanning_disabled_strings :: "string list" where
  "secret_scanning_disabled_strings =
     [''secret scanning is not enabled'', ''secret scanning is disabled'']"

definition dependabot_disabled_strings :: "string list" where
  "dependabot_disabled_strings =
     [''dependabot alerts are not enabled'', ''dependabot alerts are disabled'']"

definition FEATURES :: "string list" where
  "FEATURES = [''secretscanning'', ''codescanning'', ''dependabot'']"

text \<open>
  The warning printed for an invalid feature: the f-string of the source, with the list
  \<open>FEATURES\<close> printed as Python prints a list of strings.
\<close>

definition quote :: "string \<Rightarrow> string" where
  "quote s = [CHR 0x27] @ s @ [CHR 0x27]"

definition invalid_feature_msg :: "string \<Rightarrow> string" where
  "invalid_feature_msg f =
     ''Invalid feature: '' @ f @ ''. Proceeding without. Valid features are: ''
       @ ''['' @ join '', '' (map quote FEATURES) @ '']''"

text \<open>
  The loop \<open>for f in features: if f not in FEATURES: print(...); features.remove(f)\<close>.
  Python's list iterator keeps an index \<open>i\<close> into the list it iterates and stops when
  \<open>i\<close> reaches the current length; \<open>features.remove(f)\<close> deletes the first occurrence of
  \<open>f\<close> from that same list while the loop runs. The state of the loop is the index, the
  list and the lines printed so far.
\<close>

function drop_invalid :: "nat \<Rightarrow> string list \<Rightarrow> string list \<Rightarrow> string list \<times> string list" where
  "drop_invalid i features out =
     (if i < length features then
        (let f = features ! i in
         if f \<notin> set FEATURES
         then drop_invalid (i + 1) (remove1 f features) (out @ [invalid_feature_msg f])
         else drop_invalid (i + 1) features out)
      else (features, out))"
  by pat_completeness auto
termination
proof (relation "measure (\<lambda>(i, features, out). length features - i)")
  show "wf (measure (\<lambda>(i, features, out). length features - i))" by simp
next
  fix i :: nat and features out :: "string list" and x
  assume "i < length features" and "x = features ! i"
  then have "x \<in> set features" by simp
  then have "length (remove1 x features) = length features - 1"
    by (simp add: length_remove1)
  with \<open>i < length features\<close>
  show "((i + 1, remove1 x features, out @ [invalid_feature_msg x]), (i, features, out))
          \<in> measure (\<lambda>(i, features, out). length features - i)"
    by simp
next
  fix i :: nat and features out :: "string list" and x
  assume "i < length features"
  then show "((i + 1, features, out), (i, features, out))
          \<in> measure (\<lambda>(i, features, out). length features - i)"
    by simp
qed

text \<open>
  \<open>requested_features = os.getenv("FEATURES")\<close> and the resolution of \<open>features\<close>:
  the result is the feature list and the warnings printed.
\<close>

definition resolve_features :: "string option \<Rightarrow> string list \<times> string list" where
  "resolve_features requested_features =
     (case requested_features of
        None \<Rightarrow> (FEATURES, [])
      | Some r \<Rightarrow> if r = ''all'' then (FEATURES, []) else drop_invalid 0 (split_comma r) [])"

section \<open>Data model\<close>

text \<open>
  A value of an alert record: a JSON value as \<open>json\<close> decodes it, \<open>None\<close>, a bool, a
  number (an int here: a float behaves as an int does wherever the script looks at a
  value), a string, a list or a dict. An alert record is a Python dict; it is modelled by
  the list of its items in insertion order, which is the order of \<open>keys()\<close> and
  \<open>values()\<close>. A CSV file is the list of the rows handed to \<open>writer.writerow\<close>, each a
  list of cells.
\<close>

datatype pyval =
    PNone | PBool bool | PInt int | PStr string
  | PList "pyval list" | PDict "(string \<times> pyval) list"

type_synonym alert = "(string \<times> pyval) list"

type_synonym csv_row = "pyval list"

text \<open>
  An environment value is a string or \<open>None\<close>. The admin map is the dict
  \<open>admin_details\<close>; the program stores only the scope name as a key, so a key is an
  environment value.
\<close>

type_synonym admin_map = "string option \<rightharpoonup> string list"

definition env_val :: "string option \<Rightarrow> pyval" where
  "env_val v = (case v of None \<Rightarrow> PNone | Some s \<Rightarrow> PStr s)"

text \<open>
  Exceptions. \<open>IndexError\<close> is what \<open>data[0]\<close> raises on an empty list; \<open>TypeError\<close> is
  what a dict raises when it is asked for a key that cannot be hashed, a list or a dict,
  with the name of the type of the key; \<open>FetchError\<close> is any exception (an instance of
  \<open>Exception\<close>) that a call to the GitHub API raises, with its text \<open>str(e)\<close>.
\<close>

datatype pytype = ListType | DictType

fun type_name :: "pytype \<Rightarrow> string" where
  "type_name ListType = ''list''"
| "type_name DictType = ''dict''"

datatype exn = IndexError | TypeError pytype | FetchError string

fun exn_text :: "exn \<Rightarrow> string" where
  "exn_text IndexError = ''list index out of range''"
| "exn_text (TypeError ty) = ''unhashable type: '' @ quote (type_name ty)"
| "exn_text (FetchError t) = t"

text \<open>
  \<open>admin_details.get(key, [])\<close> at a key that can be hashed, and at any value
  \<open>repo_name\<close>: the key is hashed before it is looked up, so a list or a dict raises
  \<open>TypeError\<close> whatever the map holds; a bool or a number is equal to no key of the map.
\<close>

definition admins_or_empty :: "admin_map \<Rightarrow> string option \<Rightarrow> string list" where
  "admins_or_empty admin_details key =
     (case admin_details key of None \<Rightarrow> [] | Some admins \<Rightarrow> admins)"

fun admin_get :: "admin_map \<Rightarrow> pyval \<Rightarrow> exn + string list" where
  "admin_get admin_details PNone = Inr (admins_or_empty admin_details None)"
| "admin_get admin_details (PStr r) = Inr (admins_or_empty admin_details (Some r))"
| "admin_get admin_details (PBool b) = Inr []"
| "admin_get admin_details (PInt n) = Inr []"
| "admin_get admin_details (PList xs) = Inl (TypeError ListType)"
| "admin_get admin_details (PDict kvs) = Inl (TypeError DictType)"

text \<open>
  The calls to the GitHub API. The functions of the modules \<open>secret_scanning\<close>,
  \<open>code_scanning\<close>, \<open>dependabot\<close> and \<open>enterprise\<close> are parameters of the model: a
  \<open>world\<close> gives the response of each, an exception or a value. The endpoint, the token
  and the scope name are fixed during a run and are left out of the calls; the repository
  report is taken to be a list of repository names.
\<close>

datatype fetcher =
    GetEnterpriseSsAlerts
  | ListEnterpriseServerCsAlerts "string list"
  | ListEnterpriseCloudCsAlerts
  | ListEnterpriseDependabotAlerts
  | ListOrgCsAlerts
  | ListOrgDependabotAlerts
  | GetOrgSsAlerts
  | ListRepoCsAlerts
  | ListRepoDependabotAlerts
  | GetRepoSsAlerts

datatype call =
    GetRepoAdmins "string option"
  | GetEnterpriseVersion
  | GetRepoReport
  | Fetch fetcher

record world =
  get_repo_admins :: "string option \<Rightarrow> exn + string list"
  get_enterprise_version :: "exn + string"
  get_repo_report :: "exn + string list"
  fetch_alerts :: "fetcher \<Rightarrow> exn + alert list"

text \<open>
  What a run changes: the files it writes, the lines it prints, and the API calls it
  makes, in order.
\<close>

record state =
  files :: "string \<rightharpoonup> csv_row list"
  stdout :: "string list"
  calls :: "call list"

text \<open>
  A piece of the script either finishes with a value or stops the run: by an exception
  that nothing catches, or by \<open>exit(msg)\<close>. The state at that point is kept.
\<close>

datatype stop = Raised exn | Exited string

type_synonym 'a prog = "state \<Rightarrow> (stop + 'a) \<times> state"

definition then_do :: "'a prog \<Rightarrow> ('a \<Rightarrow> 'b prog) \<Rightarrow> 'b prog" where
  "then_do m k s = (case m s of (Inl st, s') \<Rightarrow> (Inl st, s') | (Inr v, s') \<Rightarrow> k v s')"

definition skip :: "unit prog" where
  "skip s = (Inr (), s)"

definition print :: "string \<Rightarrow> unit prog" where
  "print line s = (Inr (), s\<lparr>stdout := stdout s @ [line]\<rparr>)"

definition api_call :: "call \<Rightarrow> exn + 'a \<Rightarrow> 'a prog" where
  "api_call c response s =
     (case response of
        Inl e \<Rightarrow> (Inl (Raised e), s\<lparr>calls := calls s @ [c]\<rparr>)
      | Inr v \<Rightarrow> (Inr v, s\<lparr>calls := calls s @ [c]\<rparr>))"

text \<open>
  The status with which the process ends: 0 after a normal end, 1 after an uncaught
  exception and after \<open>exit\<close> with a string (which Python prints to standard error).
\<close>

fun exit_status :: "stop + unit \<Rightarrow> nat" where
  "exit_status (Inr u) = 0"
| "exit_status (Inl (Raised e)) = 1"
| "exit_status (Inl (Exited msg)) = 1"

section \<open>The report writer\<close>

text \<open>A computation that raises the exception or returns the value, and changes nothing.\<close>

definition raise_or_return :: "exn + 'a \<Rightarrow> 'a prog" where
  "raise_or_return r s = (case r of Inl e \<Rightarrow> (Inl (Raised e), s) | Inr v \<Rightarrow> (Inr v, s))"

text \<open>\<open>open(filename, 'w')\<close> creates or empties the file; \<open>writer.writerow\<close> adds a row to it.\<close>

definition open_w :: "string \<Rightarrow> unit prog" where
  "open_w filename s = (Inr (), s\<lparr>files := (files s)(filename \<mapsto> [])\<rparr>)"

definition writerow :: "string \<Rightarrow> csv_row \<Rightarrow> unit prog" where
  "writerow filename r s =
     (Inr (), s\<lparr>files := (files s)(filename \<mapsto>
                 (case files s filename of None \<Rightarrow> [] | Some rows \<Rightarrow> rows) @ [r])\<rparr>)"

text \<open>
  One data row: the values of the record, then the admins joined by \<open>", "\<close>. The lookup
  of the admins raises when the \<open>repository\<close> value of the record cannot be hashed.
\<close>

definition csv_row_of :: "string option \<Rightarrow> admin_map \<Rightarrow> alert \<Rightarrow> exn + csv_row" where
  "csv_row_of scope_name admin_details row =
     (let repo_name = (case map_of row ''repository'' of
                         None \<Rightarrow> env_val scope_name | Some v \<Rightarrow> v)
      in case admin_get admin_details repo_name of
           Inl e \<Rightarrow> Inl e
         | Inr admins \<Rightarrow> Inr (map snd row @ [PStr (join '', '' admins)]))"

text \<open>\<open>for row in data: ... writer.writerow(...)\<close>: the loop stops at the first record that raises.\<close>

fun write_rows :: "string option \<Rightarrow> admin_map \<Rightarrow> string \<Rightarrow> alert list \<Rightarrow> unit prog" where
  "write_rows scope_name admin_details filename [] = skip"
| "write_rows scope_name admin_details filename (row # rest) =
     then_do (raise_or_return (csv_row_of scope_name admin_details row)) (\<lambda>r.
     then_do (writerow filename r) (\<lambda>_.
     write_rows scope_name admin_details filename rest))"

text \<open>
  \<open>write_csv_with_admins\<close>: the file is opened, \<open>data[0]\<close> raises on an empty list,
  otherwise the header is written and then the rows, one record after the other. What has
  been written when an exception is raised stays in the file, which the \<open>with\<close> block
  closes.
\<close>

definition write_csv_with_admins ::
    "string option \<Rightarrow> string \<Rightarrow> alert list \<Rightarrow> admin_map \<Rightarrow> unit prog" where
  "write_csv_with_admins scope_name filename data admin_details =
     then_do (open_w filename) (\<lambda>_.
     then_do (raise_or_return (case data of [] \<Rightarrow> Inl IndexError | first # rest \<Rightarrow> Inr first))
       (\<lambda>first.
     then_do (writerow filename (map (\<lambda>kv. PStr (fst kv)) first @ [PStr ''Admins''])) (\<lambda>_.
     write_rows scope_name admin_details filename data)))"

section \<open>The orchestrator\<close>

text \<open>
  \<open>try: body except Exception as e: if any(x in str(e).lower() for x in
  disabled_strings): print(msg); print(e) else: raise\<close>. An \<open>exit\<close> is not an
  \<open>Exception\<close> and passes through.
\<close>

definition is_disabled :: "string list \<Rightarrow> exn \<Rightarrow> bool" where
  "is_disabled disabled_strings e =
     list_ex (\<lambda>x. contains (lower (exn_text e)) x) disabled_strings"

definition try_disabled :: "string list \<Rightarrow> string \<Rightarrow> unit prog \<Rightarrow> unit prog" where
  "try_disabled disabled_strings msg body s =
     (case body s of
        (Inl (Raised e), s') \<Rightarrow>
          if is_disabled disabled_strings e
          then (Inr (), s'\<lparr>stdout := stdout s' @ [msg, exn_text e]\<rparr>)
          else (Inl (Raised e), s')
      | r \<Rightarrow> r)"

text \<open>\<open>if "name" in features: body\<close>\<close>

definition if_requested :: "string \<Rightarrow> string list \<Rightarrow> unit prog \<Rightarrow> unit prog" where
  "if_requested name features body = (if name \<in> set features then body else skip)"

text \<open>
  The secret scanning and the Dependabot steps have the same shape in the three scopes:
  fetch and write inside the \<open>try\<close>. The code scanning step of the organization and
  repository scopes is the fetch and the write with no \<open>try\<close> around them.
\<close>

definition secret_scanning_step ::
    "fetcher \<Rightarrow> string \<Rightarrow> string option \<Rightarrow> world \<Rightarrow> admin_map \<Rightarrow> unit prog" where
  "secret_scanning_step f filename scope_name w admin_details =
     try_disabled secret_scanning_disabled_strings
       ''Skipping Secret Scanning as it is not enabled.''
       (then_do (api_call (Fetch f) (fetch_alerts w f)) (\<lambda>secrets_list.
          write_csv_with_admins scope_name filename secrets_list admin_details))"

definition dependabot_step ::
    "fetcher \<Rightarrow> string \<Rightarrow> string option \<Rightarrow> world \<Rightarrow> admin_map \<Rightarrow> unit prog" where
  "dependabot_step f filename scope_name w admin_details =
     try_disabled dependabot_disabled_strings
       ''Skipping Dependabot as it is not enabled.''
       (then_do (api_call (Fetch f) (fetch_alerts w f)) (\<lambda>dependabot_list.
          write_csv_with_admins scope_name filename dependabot_list admin_details))"

definition code_scanning_step ::
    "fetcher \<Rightarrow> string \<Rightarrow> string option \<Rightarrow> world \<Rightarrow> admin_map \<Rightarrow> unit prog" where
  "code_scanning_step f filename scope_name w admin_details =
     then_do (api_call (Fetch f) (fetch_alerts w f)) (\<lambda>cs_list.
       write_csv_with_admins scope_name filename cs_list admin_details)"

text \<open>
  The code scanning step of the enterprise scope asks for the server version first: on
  3.5 and 3.6 it fetches the repository report and the alerts of each repository in it,
  otherwise the alerts of the enterprise.
\<close>

definition enterprise_code_scanning_step ::
    "string option \<Rightarrow> world \<Rightarrow> admin_map \<Rightarrow> unit prog" where
  "enterprise_code_scanning_step scope_name w admin_details =
     then_do (api_call GetEnterpriseVersion (get_enterprise_version w)) (\<lambda>version.
       if startswith version ''3.5'' \<or> startswith version ''3.6''
       then
         then_do (api_call GetRepoReport (get_repo_report w)) (\<lambda>repo_list.
           code_scanning_step (ListEnterpriseServerCsAlerts repo_list)
             ''enterprise_code_scanning.csv'' scope_name w admin_details)
       else
         code_scanning_step ListEnterpriseCloudCsAlerts
           ''enterprise_code_scanning.csv'' scope_name w admin_details)"

definition enterprise_scope ::
    "string option \<Rightarrow> string list \<Rightarrow> world \<Rightarrow> admin_map \<Rightarrow> unit prog" where
  "enterprise_scope scope_name features w admin_details =
     then_do (if_requested ''secretscanning'' features
                (secret_scanning_step GetEnterpriseSsAlerts
                   ''enterprise_secret_scanning.csv'' scope_name w admin_details)) (\<lambda>_.
     then_do (if_requested ''codescanning'' features
                (enterprise_code_scanning_step scope_name w admin_details)) (\<lambda>_.
     if_requested ''dependabot'' features
       (dependabot_step ListEnterpriseDependabotAlerts
          ''enterprise_dependabot.csv'' scope_name w admin_details)))"

definition organization_scope ::
    "string option \<Rightarrow> string list \<Rightarrow> world \<Rightarrow> admin_map \<Rightarrow> unit prog" where
  "organization_scope scope_name features w admin_details =
     then_do (if_requested ''codescanning'' features
                (code_scanning_step ListOrgCsAlerts
                   ''organization_code_scanning.csv'' scope_name w admin_details)) (\<lambda>_.
     then_do (if_requested ''dependabot'' features
                (dependabot_step ListOrgDependabotAlerts
                   ''organization_dependabot.csv'' scope_name w admin_details)) (\<lambda>_.
     if_requested ''secretscanning'' features
       (secret_scanning_step GetOrgSsAlerts
          ''organization_secret_scanning.csv'' scope_name w admin_details)))"

definition repository_scope ::
    "string option \<Rightarrow> string list \<Rightarrow> world \<Rightarrow> admin_map \<Rightarrow> unit prog" where
  "repository_scope scope_name features w admin_details =
     then_do (if_requested ''codescanning'' features
                (code_scanning_step ListRepoCsAlerts
                   ''repository_code_scanning.csv'' scope_name w admin_details)) (\<lambda>_.
     then_do (if_requested ''dependabot'' features
                (dependabot_step ListRepoDependabotAlerts
                   ''repository_dependabot.csv'' scope_name w admin_details)) (\<lambda>_.
     if_requested ''secretscanning'' features
       (secret_scanning_step GetRepoSsAlerts
          ''repository_secret_scanning.csv'' scope_name w admin_details)))"

text \<open>
  The admin map. \<open>for repo in repos: admin_details[repo] = get_repo_admins(repo, ...)\<close>
  is the loop of the organization and enterprise scopes, run on \<open>repos = [scope_name]\<close>.
\<close>

fun fetch_admins :: "world \<Rightarrow> string option list \<Rightarrow> admin_map \<Rightarrow> admin_map prog" where
  "fetch_admins w [] admin_details = (\<lambda>s. (Inr admin_details, s))"
| "fetch_admins w (repo # repos) admin_details =
     then_do (api_call (GetRepoAdmins repo) (get_repo_admins w repo)) (\<lambda>admins.
       fetch_admins w repos (admin_details(repo \<mapsto> admins)))"

definition fetch_admin_details :: "string \<Rightarrow> string option \<Rightarrow> world \<Rightarrow> admin_map prog" where
  "fetch_admin_details report_scope scope_name w =
     (if report_scope = ''repository'' then
        then_do (api_call (GetRepoAdmins scope_name) (get_repo_admins w scope_name))
          (\<lambda>admins s. (Inr (Map.empty(scope_name \<mapsto> admins)), s))
      else if report_scope \<in> set [''organization'', ''enterprise''] then
        (let repos = [scope_name] in fetch_admins w repos Map.empty)
      else (\<lambda>s. (Inr Map.empty, s)))"

text \<open>The body of \<open>if __name__ == "__main__"\<close>.\<close>

definition run :: "string \<Rightarrow> string option \<Rightarrow> string list \<Rightarrow> world \<Rightarrow> unit prog" where
  "run report_scope scope_name features w =
     then_do (print ''Starting GitHub security report...'') (\<lambda>_.
     then_do (fetch_admin_details report_scope scope_name w) (\<lambda>admin_details.
       if report_scope = ''enterprise'' then
         enterprise_scope scope_name features w admin_details
       else if report_scope = ''organization'' then
         organization_scope scope_name features w admin_details
       else if report_scope = ''repository'' then
         repository_scope scope_name features w admin_details
       else (\<lambda>s. (Inl (Exited ''Invalid report scope''), s))))"

text \<open>
  The whole script: the configuration is read from the environment, the warnings of the
  feature resolution are printed, and the body runs from a state with the files already
  on disk, nothing printed and no call made.
\<close>

definition init_state :: "(string \<rightharpoonup> csv_row list) \<Rightarrow> state" where
  "init_state disk = \<lparr>files = disk, stdout = [], calls = []\<rparr>"

definition script ::
    "(string \<rightharpoonup> string) \<Rightarrow> world \<Rightarrow> (string \<rightharpoonup> csv_row list) \<Rightarrow> (stop + unit) \<times> state" where
  "script env w disk =
     (let report_scope = (case env ''GITHUB_REPORT_SCOPE'' of
                            None \<Rightarrow> ''repository'' | Some v \<Rightarrow> v);
          scope_name = (case env ''SCOPE_NAME'' of
                          None \<Rightarrow> env ''GITHUB_REPOSITORY'' | Some v \<Rightarrow> Some v);
          (features, warnings) = resolve_features (env ''FEATURES'')
      in run report_scope scope_name features w
           ((init_state disk)\<lparr>stdout := warnings\<rparr>))"

section \<open>Vocabulary of the statements\<close>

text \<open>
  The definitions of this section are not functions of the script. They name what the
  statements below talk about, and each is read off the source: the three features, the
  order in which the branch of a scope handles them, the block of a scope for a feature,
  what the fetch of that block returns, and the file it writes. The section on the run as
  a sequence of steps proves that the three branches, as translated above, are these
  blocks in this order.
\<close>

datatype feature = SecretScanning | CodeScanning | Dependabot

text \<open>The name under which a feature is requested, as tested by \<open>in features\<close>.\<close>

fun feature_name :: "feature \<Rightarrow> string" where
  "feature_name SecretScanning = ''secretscanning''"
| "feature_name CodeScanning = ''codescanning''"
| "feature_name Dependabot = ''dependabot''"

text \<open>The scopes that have a branch.\<close>

definition valid_scope :: "string \<Rightarrow> bool" where
  "valid_scope report_scope = (report_scope \<in> set [''enterprise'', ''organization'', ''repository''])"

text \<open>
  The order of the three \<open>if "..." in features\<close> blocks in the branch of a scope, and the
  requested features in that order.
\<close>

definition scope_order :: "string \<Rightarrow> feature list" where
  "scope_order report_scope =
     (if report_scope = ''enterprise'' then [SecretScanning, CodeScanning, Dependabot]
      else [CodeScanning, Dependabot, SecretScanning])"

definition requested :: "string \<Rightarrow> string list \<Rightarrow> feature list" where
  "requested report_scope features =
     filter (\<lambda>f. feature_name f \<in> set features) (scope_order report_scope)"

text \<open>The feature that an API call is made for; the admin lookup belongs to none.\<close>

fun fetcher_feature :: "fetcher \<Rightarrow> feature" where
  "fetcher_feature GetEnterpriseSsAlerts = SecretScanning"
| "fetcher_feature GetOrgSsAlerts = SecretScanning"
| "fetcher_feature GetRepoSsAlerts = SecretScanning"
| "fetcher_feature (ListEnterpriseServerCsAlerts repo_list) = CodeScanning"
| "fetcher_feature ListEnterpriseCloudCsAlerts = CodeScanning"
| "fetcher_feature ListOrgCsAlerts = CodeScanning"
| "fetcher_feature ListRepoCsAlerts = CodeScanning"
| "fetcher_feature ListEnterpriseDependabotAlerts = Dependabot"
| "fetcher_feature ListOrgDependabotAlerts = Dependabot"
| "fetcher_feature ListRepoDependabotAlerts = Dependabot"

fun call_feature :: "call \<Rightarrow> feature option" where
  "call_feature (GetRepoAdmins repo) = None"
| "call_feature GetEnterpriseVersion = Some CodeScanning"
| "call_feature GetRepoReport = Some CodeScanning"
| "call_feature (Fetch f) = Some (fetcher_feature f)"

text \<open>
  The block of a scope for a feature: the body of its \<open>if "..." in features\<close>, with the
  fetcher and the file name of the source.
\<close>

definition step :: "string \<Rightarrow> feature \<Rightarrow> string option \<Rightarrow> world \<Rightarrow> admin_map \<Rightarrow> unit prog" where
  "step report_scope f scope_name w admin_details =
     (if report_scope = ''enterprise'' then
        (case f of
           SecretScanning \<Rightarrow> secret_scanning_step GetEnterpriseSsAlerts
             ''enterprise_secret_scanning.csv'' scope_name w admin_details
         | CodeScanning \<Rightarrow> enterprise_code_scanning_step scope_name w admin_details
         | Dependabot \<Rightarrow> dependabot_step ListEnterpriseDependabotAlerts
             ''enterprise_dependabot.csv'' scope_name w admin_details)
      else if report_scope = ''organization'' then
        (case f of
           SecretScanning \<Rightarrow> secret_scanning_step GetOrgSsAlerts
             ''organization_secret_scanning.csv'' scope_name w admin_details
         | CodeScanning \<Rightarrow> code_scanning_step ListOrgCsAlerts
             ''organization_code_scanning.csv'' scope_name w admin_details
         | Dependabot \<Rightarrow> dependabot_step ListOrgDependabotAlerts
             ''organization_dependabot.csv'' scope_name w admin_details)
      else
        (case f of
           SecretScanning \<Rightarrow> secret_scanning_step GetRepoSsAlerts
             ''repository_secret_scanning.csv'' scope_name w admin_details
         | CodeScanning \<Rightarrow> code_scanning_step ListRepoCsAlerts
             ''repository_code_scanning.csv'' scope_name w admin_details
         | Dependabot \<Rightarrow> dependabot_step ListRepoDependabotAlerts
             ''repository_dependabot.csv'' scope_name w admin_details))"

text \<open>The steps of a scope for a list of features, one after the other.\<close>

fun run_features ::
    "string \<Rightarrow> string option \<Rightarrow> world \<Rightarrow> admin_map \<Rightarrow> feature list \<Rightarrow> unit prog" where
  "run_features report_scope scope_name w admin_details [] = skip"
| "run_features report_scope scope_name w admin_details (f # fs) =
     then_do (step report_scope f scope_name w admin_details)
       (\<lambda>_. run_features report_scope scope_name w admin_details fs)"

text \<open>
  The alert fetcher of a scope for a feature, and what the fetch of a block returns. The
  code scanning block of the enterprise scope makes up to three calls, and its fetch fails
  as soon as one of them does.
\<close>

definition scope_fetcher :: "string \<Rightarrow> feature \<Rightarrow> fetcher" where
  "scope_fetcher report_scope f =
     (if report_scope = ''enterprise'' then
        (case f of SecretScanning \<Rightarrow> GetEnterpriseSsAlerts
                 | CodeScanning \<Rightarrow> ListEnterpriseCloudCsAlerts
                 | Dependabot \<Rightarrow> ListEnterpriseDependabotAlerts)
      else if report_scope = ''organization'' then
        (case f of SecretScanning \<Rightarrow> GetOrgSsAlerts
                 | CodeScanning \<Rightarrow> ListOrgCsAlerts
                 | Dependabot \<Rightarrow> ListOrgDependabotAlerts)
      else
        (case f of SecretScanning \<Rightarrow> GetRepoSsAlerts
                 | CodeScanning \<Rightarrow> ListRepoCsAlerts
                 | Dependabot \<Rightarrow> ListRepoDependabotAlerts))"

definition fetch_result :: "string \<Rightarrow> feature \<Rightarrow> world \<Rightarrow> exn + alert list" where
  "fetch_result report_scope f w =
     (if report_scope = ''enterprise'' \<and> f = CodeScanning then
        (case get_enterprise_version w of
           Inl e \<Rightarrow> Inl e
         | Inr version \<Rightarrow>
             if startswith version ''3.5'' \<or> startswith version ''3.6''
             then (case get_repo_report w of
                     Inl e \<Rightarrow> Inl e
                   | Inr repo_list \<Rightarrow> fetch_alerts w (ListEnterpriseServerCsAlerts repo_list))
             else fetch_alerts w ListEnterpriseCloudCsAlerts)
      else fetch_alerts w (scope_fetcher report_scope f))"

text \<open>
  The phrases that the block of a feature matches against; the code scanning blocks have
  no handler and match nothing.
\<close>

fun disabled_strings :: "feature \<Rightarrow> string list" where
  "disabled_strings SecretScanning = secret_scanning_disabled_strings"
| "disabled_strings Dependabot = dependabot_disabled_strings"
| "disabled_strings CodeScanning = []"

text \<open>The file of a scope for a feature, and the rows that \<open>write_csv_with_admins\<close> leaves in it.\<close>

fun csv_suffix :: "feature \<Rightarrow> string" where
  "csv_suffix SecretScanning = ''_secret_scanning.csv''"
| "csv_suffix CodeScanning = ''_code_scanning.csv''"
| "csv_suffix Dependabot = ''_dependabot.csv''"

definition csv_file :: "string \<Rightarrow> feature \<Rightarrow> string" where
  "csv_file report_scope f = report_scope @ csv_suffix f"

text \<open>
  The rows that the loop of \<open>write_csv_with_admins\<close> writes for a list of records, the rows
  of the records before the first one whose row raises, and the exception of that record.
\<close>

fun written_rows :: "string option \<Rightarrow> admin_map \<Rightarrow> alert list \<Rightarrow> csv_row list" where
  "written_rows scope_name admin_details [] = []"
| "written_rows scope_name admin_details (row # rest) =
     (case csv_row_of scope_name admin_details row of
        Inl e \<Rightarrow> []
      | Inr r \<Rightarrow> r # written_rows scope_name admin_details rest)"

fun write_error :: "string option \<Rightarrow> admin_map \<Rightarrow> alert list \<Rightarrow> exn option" where
  "write_error scope_name admin_details [] = None"
| "write_error scope_name admin_details (row # rest) =
     (case csv_row_of scope_name admin_details row of
        Inl e \<Rightarrow> Some e
      | Inr r \<Rightarrow> write_error scope_name admin_details rest)"

definition csv_of :: "string option \<Rightarrow> admin_map \<Rightarrow> alert list \<Rightarrow> csv_row list" where
  "csv_of scope_name admin_details data =
     (case data of
        [] \<Rightarrow> []
      | first # rest \<Rightarrow> (map (\<lambda>kv. PStr (fst kv)) first @ [PStr ''Admins''])
                        # written_rows scope_name admin_details data)"

text \<open>How \<open>write_csv_with_admins\<close> ends on a list of records.\<close>

definition write_outcome :: "string option \<Rightarrow> admin_map \<Rightarrow> alert list \<Rightarrow> stop + unit" where
  "write_outcome scope_name admin_details data =
     (case data of
        [] \<Rightarrow> Inl (Raised IndexError)
      | first # rest \<Rightarrow>
          (case write_error scope_name admin_details data of
             None \<Rightarrow> Inr ()
           | Some e \<Rightarrow> Inl (Raised e)))"

text \<open>
  A record whose \<open>repository\<close> value, when it has one, can be hashed: it is not a list and
  not a dict.
\<close>

definition hashable_repository :: "alert \<Rightarrow> bool" where
  "hashable_repository row =
     (case map_of row ''repository'' of
        Some (PList xs) \<Rightarrow> False
      | Some (PDict kvs) \<Rightarrow> False
      | _ \<Rightarrow> True)"

text \<open>The features that a scope handles before a given one.\<close>

definition before :: "string \<Rightarrow> feature \<Rightarrow> feature list" where
  "before report_scope f = takeWhile (\<lambda>g. g \<noteq> f) (scope_order report_scope)"

text \<open>A list of requested feature names, cut down to the features handled before a given one.\<close>

definition only_before :: "string \<Rightarrow> feature \<Rightarrow> string list \<Rightarrow> string list" where
  "only_before report_scope f features =
     filter (\<lambda>n. n \<in> set (map feature_name (before report_scope f))) features"

text \<open>The features that the API calls of a trace belong to, in order, each once per run of calls.\<close>

definition fetched_features :: "call list \<Rightarrow> feature list" where
  "fetched_features t = remdups_adj (List.map_filter call_feature t)"

text \<open>The calls of a trace that belong to a feature, in order.\<close>

definition calls_of :: "feature \<Rightarrow> call list \<Rightarrow> call list" where
  "calls_of f t = filter (\<lambda>c. call_feature c = Some f) t"

text \<open>
  Mocked worlds for the examples: the admins of every repository are \<open>alice\<close> and \<open>bob\<close>,
  the repository report lists one repository, and the server version and the responses of
  the alert fetchers are given.
\<close>

definition mock_world :: "string \<Rightarrow> (fetcher \<Rightarrow> exn + alert list) \<Rightarrow> world" where
  "mock_world version responses =
     \<lparr>get_repo_admins = (\<lambda>repo. Inr [''alice'', ''bob'']),
      get_enterprise_version = Inr version,
      get_repo_report = Inr [''o/r''],
      fetch_alerts = responses\<rparr>"

definition one_alert :: "alert list" where
  "one_alert = [[(''number'', PInt 7), (''state'', PStr ''open'')]]"

definition all_enabled :: "fetcher \<Rightarrow> exn + alert list" where
  "all_enabled f = Inr one_alert"

text \<open>
  A world in which the code scanning fetch of a repository fails with a text that holds
  one of the known phrases.
\<close>

definition cs_disabled_world :: world where
  "cs_disabled_world =
     mock_world ''3.9.0''
       (\<lambda>f. if f = ListRepoCsAlerts
            then Inl (FetchError ''Secret scanning is disabled on this repository.'')
            else Inr one_alert)"

text \<open>
  Worlds in which the Dependabot fetch of an organization reports the feature as
  disabled, the Dependabot fetch of a repository fails with a server error, and the code
  scanning fetch of an organization returns no alert.
\<close>

definition dependabot_disabled_world :: world where
  "dependabot_disabled_world =
     mock_world ''3.9.0''
       (\<lambda>f. if f = ListOrgDependabotAlerts
            then Inl (FetchError ''Dependabot alerts are disabled for this organization.'')
            else Inr one_alert)"

definition server_error_world :: world where
  "server_error_world =
     mock_world ''3.9.0''
       (\<lambda>f. if f = ListRepoDependabotAlerts
            then Inl (FetchError ''500 Server Error: Internal Server Error'')
            else Inr one_alert)"

definition no_alerts_world :: world where
  "no_alerts_world =
     mock_world ''3.9.0'' (\<lambda>f. if f = ListOrgCsAlerts then Inr [] else Inr one_alert)"


text \<open>
  Alert lists of an organization for the examples: two records that name their
  repository, and three records of which the second holds its repository as an object.
\<close>

definition org_alerts :: "alert list" where
  "org_alerts =
     [[(''number'', PInt 7), (''repository'', PStr ''octo/app'')],
      [(''number'', PInt 8), (''repository'', PStr ''octo/web'')]]"


definition org_world :: world where
  "org_world = mock_world ''3.9.0'' (\<lambda>f. Inr org_alerts)"
section \<open>Properties of the steps\<close>

lemma then_do_skip_left: "then_do skip k = k ()"
  by (rule ext) (simp add: then_do_def skip_def)

lemma then_do_skip_right: "then_do m (\<lambda>_. skip) = m"
  by (rule ext) (auto simp: then_do_def skip_def split: prod.splits sum.splits)

lemma writer_error_not_disabled:
  "\<not> is_disabled secret_scanning_disabled_strings IndexError"
  "\<not> is_disabled dependabot_disabled_strings IndexError"
  "\<not> is_disabled secret_scanning_disabled_strings (TypeError ListType)"
  "\<not> is_disabled dependabot_disabled_strings (TypeError ListType)"
  "\<not> is_disabled secret_scanning_disabled_strings (TypeError DictType)"
  "\<not> is_disabled dependabot_disabled_strings (TypeError DictType)"
  by code_simp+

lemma csv_row_of_error:
  assumes "csv_row_of scope_name admin_details row = Inl e"
  shows "e = TypeError ListType \<or> e = TypeError DictType"
proof -
  obtain v where "admin_get admin_details v = Inl e"
    using assms by (auto simp: csv_row_of_def Let_def split: sum.splits)
  then show ?thesis by (cases v) auto
qed

lemma write_error_cases:
  "write_error scope_name admin_details data = Some e
     \<Longrightarrow> e = TypeError ListType \<or> e = TypeError DictType"
  by (induction data) (auto split: sum.splits dest: csv_row_of_error)

lemma write_outcome_cases:
  assumes "write_outcome scope_name admin_details data = Inl st"
  shows "st = Raised IndexError \<or> st = Raised (TypeError ListType)
           \<or> st = Raised (TypeError DictType)"
  using assms write_error_cases [of scope_name admin_details data]
  by (auto simp: write_outcome_def split: list.splits option.splits)

lemma write_outcome_not_disabled:
  assumes "write_outcome scope_name admin_details data = Inl (Raised e)"
  shows "\<not> is_disabled secret_scanning_disabled_strings e"
    and "\<not> is_disabled dependabot_disabled_strings e"
  using write_outcome_cases [OF assms] by (auto simp: writer_error_not_disabled)

lemma write_outcome_not_exited:
  "write_outcome scope_name admin_details data \<noteq> Inl (Exited msg)"
  using write_outcome_cases [of scope_name admin_details data "Exited msg"] by auto

lemma write_rows_eq:
  assumes "files s filename = Some rows"
  shows "write_rows scope_name admin_details filename data s
     = (case write_error scope_name admin_details data of
          None \<Rightarrow> Inr () | Some e \<Rightarrow> Inl (Raised e),
        s\<lparr>files := (files s)(filename \<mapsto>
             rows @ written_rows scope_name admin_details data)\<rparr>)"
  using assms
proof (induction data arbitrary: s rows)
  case Nil
  have "(files s)(filename \<mapsto> rows) = files s"
    using Nil by (simp add: fun_upd_idem)
  then show ?case by (simp add: skip_def)
next
  case (Cons row rest)
  show ?case
  proof (cases "csv_row_of scope_name admin_details row")
    case (Inl e)
    have "(files s)(filename \<mapsto> rows) = files s"
      using Cons.prems by (simp add: fun_upd_idem)
    with Inl show ?thesis by (simp add: then_do_def raise_or_return_def)
  next
    case (Inr r)
    let ?s1 = "s\<lparr>files := (files s)(filename \<mapsto> rows @ [r])\<rparr>"
    have a: "write_rows scope_name admin_details filename (row # rest) s
               = write_rows scope_name admin_details filename rest ?s1"
      using Inr Cons.prems by (simp add: then_do_def raise_or_return_def writerow_def)
    have "files ?s1 filename = Some (rows @ [r])" by simp
    from Cons.IH [OF this]
    have b: "write_rows scope_name admin_details filename rest ?s1
               = (case write_error scope_name admin_details rest of
                    None \<Rightarrow> Inr () | Some e \<Rightarrow> Inl (Raised e),
                  ?s1\<lparr>files := (files ?s1)(filename \<mapsto>
                         (rows @ [r]) @ written_rows scope_name admin_details rest)\<rparr>)" .
    have c: "?s1\<lparr>files := (files ?s1)(filename \<mapsto>
                  (rows @ [r]) @ written_rows scope_name admin_details rest)\<rparr>
             = s\<lparr>files := (files s)(filename \<mapsto>
                  rows @ written_rows scope_name admin_details (row # rest))\<rparr>"
      using Inr by simp
    have d: "write_error scope_name admin_details (row # rest)
               = write_error scope_name admin_details rest"
      using Inr by simp
    show ?thesis unfolding a b c d ..
  qed
qed

lemma write_csv_eq:
  "write_csv_with_admins scope_name filename data admin_details s
     = (write_outcome scope_name admin_details data,
        s\<lparr>files := (files s)(filename \<mapsto> csv_of scope_name admin_details data)\<rparr>)"
proof (cases data)
  case Nil
  then show ?thesis
    by (simp add: write_csv_with_admins_def then_do_def open_w_def raise_or_return_def
        write_outcome_def csv_of_def)
next
  case (Cons first rest)
  let ?header = "map (\<lambda>kv. PStr (fst kv)) first @ [PStr ''Admins'']"
  let ?s2 = "s\<lparr>files := (files s)(filename \<mapsto> [?header])\<rparr>"
  have a: "write_csv_with_admins scope_name filename (first # rest) admin_details s
             = write_rows scope_name admin_details filename (first # rest) ?s2"
    by (simp add: write_csv_with_admins_def then_do_def open_w_def raise_or_return_def
        writerow_def del: write_rows.simps)
  have "files ?s2 filename = Some [?header]" by simp
  from write_rows_eq [OF this, of scope_name admin_details "first # rest"]
  have b: "write_rows scope_name admin_details filename (first # rest) ?s2
             = (case write_error scope_name admin_details (first # rest) of
                  None \<Rightarrow> Inr () | Some e \<Rightarrow> Inl (Raised e),
                ?s2\<lparr>files := (files ?s2)(filename \<mapsto>
                       [?header] @ written_rows scope_name admin_details (first # rest))\<rparr>)" .
  have c: "?s2\<lparr>files := (files ?s2)(filename \<mapsto>
                [?header] @ written_rows scope_name admin_details (first # rest))\<rparr>
           = s\<lparr>files := (files s)(filename \<mapsto>
                csv_of scope_name admin_details (first # rest))\<rparr>"
    by (simp add: csv_of_def del: written_rows.simps)
  have d: "(case write_error scope_name admin_details (first # rest) of
              None \<Rightarrow> Inr () | Some e \<Rightarrow> Inl (Raised e))
           = write_outcome scope_name admin_details (first # rest)"
    by (simp add: write_outcome_def del: write_error.simps split: option.splits)
  show ?thesis unfolding Cons a b c d ..
qed

lemma code_scanning_step_eq:
  "code_scanning_step fe filename scope_name w admin_details s =
     (case fetch_alerts w fe of
        Inl e \<Rightarrow> (Inl (Raised e), s\<lparr>calls := calls s @ [Fetch fe]\<rparr>)
      | Inr data \<Rightarrow>
          (write_outcome scope_name admin_details data,
           s\<lparr>files := (files s)(filename \<mapsto> csv_of scope_name admin_details data),
             calls := calls s @ [Fetch fe]\<rparr>))"
  by (simp add: code_scanning_step_def then_do_def api_call_def write_csv_eq split: sum.splits)

lemma secret_scanning_step_eq:
  "secret_scanning_step fe filename scope_name w admin_details s =
     (case fetch_alerts w fe of
        Inl e \<Rightarrow>
          if is_disabled secret_scanning_disabled_strings e
          then (Inr (), s\<lparr>stdout := stdout s @
                   [''Skipping Secret Scanning as it is not enabled.'', exn_text e],
                 calls := calls s @ [Fetch fe]\<rparr>)
          else (Inl (Raised e), s\<lparr>calls := calls s @ [Fetch fe]\<rparr>)
      | Inr data \<Rightarrow>
          (write_outcome scope_name admin_details data,
           s\<lparr>files := (files s)(filename \<mapsto> csv_of scope_name admin_details data),
             calls := calls s @ [Fetch fe]\<rparr>))"
proof (cases "fetch_alerts w fe")
  case (Inl e)
  then show ?thesis
    by (simp add: secret_scanning_step_def try_disabled_def then_do_def api_call_def)
next
  case (Inr data)
  show ?thesis
  proof (cases "write_outcome scope_name admin_details data")
    case (Inl st)
    from write_outcome_cases [OF this] Inl Inr show ?thesis
      by (auto simp: secret_scanning_step_def try_disabled_def then_do_def api_call_def
          write_csv_eq writer_error_not_disabled)
  next
    case (Inr u)
    with \<open>fetch_alerts w fe = Inr data\<close> show ?thesis
      by (simp add: secret_scanning_step_def try_disabled_def then_do_def api_call_def
          write_csv_eq)
  qed
qed

lemma dependabot_step_eq:
  "dependabot_step fe filename scope_name w admin_details s =
     (case fetch_alerts w fe of
        Inl e \<Rightarrow>
          if is_disabled dependabot_disabled_strings e
          then (Inr (), s\<lparr>stdout := stdout s @
                   [''Skipping Dependabot as it is not enabled.'', exn_text e],
                 calls := calls s @ [Fetch fe]\<rparr>)
          else (Inl (Raised e), s\<lparr>calls := calls s @ [Fetch fe]\<rparr>)
      | Inr data \<Rightarrow>
          (write_outcome scope_name admin_details data,
           s\<lparr>files := (files s)(filename \<mapsto> csv_of scope_name admin_details data),
             calls := calls s @ [Fetch fe]\<rparr>))"
proof (cases "fetch_alerts w fe")
  case (Inl e)
  then show ?thesis
    by (simp add: dependabot_step_def try_disabled_def then_do_def api_call_def)
next
  case (Inr data)
  show ?thesis
  proof (cases "write_outcome scope_name admin_details data")
    case (Inl st)
    from write_outcome_cases [OF this] Inl Inr show ?thesis
      by (auto simp: dependabot_step_def try_disabled_def then_do_def api_call_def
          write_csv_eq writer_error_not_disabled)
  next
    case (Inr u)
    with \<open>fetch_alerts w fe = Inr data\<close> show ?thesis
      by (simp add: dependabot_step_def try_disabled_def then_do_def api_call_def
          write_csv_eq)
  qed
qed

lemma enterprise_code_scanning_step_eq:
  "enterprise_code_scanning_step scope_name w admin_details s =
     (case get_enterprise_version w of
        Inl e \<Rightarrow> (Inl (Raised e), s\<lparr>calls := calls s @ [GetEnterpriseVersion]\<rparr>)
      | Inr version \<Rightarrow>
          if startswith version ''3.5'' \<or> startswith version ''3.6''
          then (case get_repo_report w of
                  Inl e \<Rightarrow> (Inl (Raised e),
                            s\<lparr>calls := calls s @ [GetEnterpriseVersion, GetRepoReport]\<rparr>)
                | Inr repo_list \<Rightarrow>
                    code_scanning_step (ListEnterpriseServerCsAlerts repo_list)
                      ''enterprise_code_scanning.csv'' scope_name w admin_details
                      (s\<lparr>calls := calls s @ [GetEnterpriseVersion, GetRepoReport]\<rparr>))
          else code_scanning_step ListEnterpriseCloudCsAlerts
                 ''enterprise_code_scanning.csv'' scope_name w admin_details
                 (s\<lparr>calls := calls s @ [GetEnterpriseVersion]\<rparr>))"
  by (simp add: enterprise_code_scanning_step_def then_do_def api_call_def split: sum.splits)


lemmas step_eqs = secret_scanning_step_eq dependabot_step_eq code_scanning_step_eq
  enterprise_code_scanning_step_eq

lemma is_disabled_Nil: "\<not> is_disabled [] e"
  by (simp add: is_disabled_def)

lemma step_simps:
  "step ''enterprise'' SecretScanning scope_name w admin_details =
     secret_scanning_step GetEnterpriseSsAlerts ''enterprise_secret_scanning.csv''
       scope_name w admin_details"
  "step ''enterprise'' CodeScanning scope_name w admin_details =
     enterprise_code_scanning_step scope_name w admin_details"
  "step ''enterprise'' Dependabot scope_name w admin_details =
     dependabot_step ListEnterpriseDependabotAlerts ''enterprise_dependabot.csv''
       scope_name w admin_details"
  "step ''organization'' SecretScanning scope_name w admin_details =
     secret_scanning_step GetOrgSsAlerts ''organization_secret_scanning.csv''
       scope_name w admin_details"
  "step ''organization'' CodeScanning scope_name w admin_details =
     code_scanning_step ListOrgCsAlerts ''organization_code_scanning.csv''
       scope_name w admin_details"
  "step ''organization'' Dependabot scope_name w admin_details =
     dependabot_step ListOrgDependabotAlerts ''organization_dependabot.csv''
       scope_name w admin_details"
  "step ''repository'' SecretScanning scope_name w admin_details =
     secret_scanning_step GetRepoSsAlerts ''repository_secret_scanning.csv''
       scope_name w admin_details"
  "step ''repository'' CodeScanning scope_name w admin_details =
     code_scanning_step ListRepoCsAlerts ''repository_code_scanning.csv''
       scope_name w admin_details"
  "step ''repository'' Dependabot scope_name w admin_details =
     dependabot_step ListRepoDependabotAlerts ''repository_dependabot.csv''
       scope_name w admin_details"
  by (simp_all add: step_def)

lemma fetch_result_simps:
  "fetch_result ''enterprise'' SecretScanning w = fetch_alerts w GetEnterpriseSsAlerts"
  "fetch_result ''enterprise'' Dependabot w = fetch_alerts w ListEnterpriseDependabotAlerts"
  "fetch_result ''organization'' SecretScanning w = fetch_alerts w GetOrgSsAlerts"
  "fetch_result ''organization'' CodeScanning w = fetch_alerts w ListOrgCsAlerts"
  "fetch_result ''organization'' Dependabot w = fetch_alerts w ListOrgDependabotAlerts"
  "fetch_result ''repository'' SecretScanning w = fetch_alerts w GetRepoSsAlerts"
  "fetch_result ''repository'' CodeScanning w = fetch_alerts w ListRepoCsAlerts"
  "fetch_result ''repository'' Dependabot w = fetch_alerts w ListRepoDependabotAlerts"
  by (simp_all add: fetch_result_def scope_fetcher_def)

lemma fetch_result_enterprise_cs:
  "fetch_result ''enterprise'' CodeScanning w =
        (case get_enterprise_version w of
           Inl e \<Rightarrow> Inl e
         | Inr version \<Rightarrow>
             if startswith version ''3.5'' \<or> startswith version ''3.6''
             then (case get_repo_report w of
                     Inl e \<Rightarrow> Inl e
                   | Inr repo_list \<Rightarrow> fetch_alerts w (ListEnterpriseServerCsAlerts repo_list))
             else fetch_alerts w ListEnterpriseCloudCsAlerts)"
  by (simp add: fetch_result_def)

lemma csv_file_simps:
  "csv_file ''enterprise'' SecretScanning = ''enterprise_secret_scanning.csv''"
  "csv_file ''enterprise'' CodeScanning = ''enterprise_code_scanning.csv''"
  "csv_file ''enterprise'' Dependabot = ''enterprise_dependabot.csv''"
  "csv_file ''organization'' SecretScanning = ''organization_secret_scanning.csv''"
  "csv_file ''organization'' CodeScanning = ''organization_code_scanning.csv''"
  "csv_file ''organization'' Dependabot = ''organization_dependabot.csv''"
  "csv_file ''repository'' SecretScanning = ''repository_secret_scanning.csv''"
  "csv_file ''repository'' CodeScanning = ''repository_code_scanning.csv''"
  "csv_file ''repository'' Dependabot = ''repository_dependabot.csv''"
  by (simp_all add: csv_file_def)

lemma valid_scope_cases:
  assumes "valid_scope report_scope"
  obtains "report_scope = ''enterprise''" | "report_scope = ''organization''"
    | "report_scope = ''repository''"
  using assms by (auto simp: valid_scope_def)

lemma step_result:
  assumes "valid_scope report_scope"
  shows "fst (step report_scope f scope_name w admin_details s) =
     (case fetch_result report_scope f w of
        Inl e \<Rightarrow> if is_disabled (disabled_strings f) e then Inr () else Inl (Raised e)
      | Inr data \<Rightarrow> write_outcome scope_name admin_details data)"
  using assms
proof (cases rule: valid_scope_cases)
  case 1
  then show ?thesis
    by (cases f)
       (simp_all add: step_simps step_eqs fetch_result_simps fetch_result_enterprise_cs
          is_disabled_Nil split: sum.splits)
next
  case 2
  then show ?thesis
    by (cases f)
       (simp_all add: step_simps step_eqs fetch_result_simps is_disabled_Nil split: sum.splits)
next
  case 3
  then show ?thesis
    by (cases f)
       (simp_all add: step_simps step_eqs fetch_result_simps is_disabled_Nil split: sum.splits)
qed

lemma step_files:
  assumes "valid_scope report_scope"
  shows "files (snd (step report_scope f scope_name w admin_details s)) =
     (case fetch_result report_scope f w of
        Inl e \<Rightarrow> files s
      | Inr data \<Rightarrow> (files s)(csv_file report_scope f \<mapsto> csv_of scope_name admin_details data))"
  using assms
proof (cases rule: valid_scope_cases)
  case 1
  then show ?thesis
    by (cases f)
       (simp_all add: step_simps step_eqs fetch_result_simps fetch_result_enterprise_cs
          csv_file_simps split: sum.splits)
next
  case 2
  then show ?thesis
    by (cases f)
       (simp_all add: step_simps step_eqs fetch_result_simps csv_file_simps split: sum.splits)
next
  case 3
  then show ?thesis
    by (cases f)
       (simp_all add: step_simps step_eqs fetch_result_simps csv_file_simps split: sum.splits)
qed

lemma step_calls:
  assumes "valid_scope report_scope"
  shows "\<exists>t. calls (snd (step report_scope f scope_name w admin_details s)) = calls s @ t
           \<and> t \<noteq> [] \<and> (\<forall>c \<in> set t. call_feature c = Some f)"
  using assms
proof (cases rule: valid_scope_cases)
  case 1
  then show ?thesis
    by (cases f) (simp_all add: step_simps step_eqs split: sum.splits)
next
  case 2
  then show ?thesis
    by (cases f) (simp_all add: step_simps step_eqs split: sum.splits)
next
  case 3
  then show ?thesis
    by (cases f) (simp_all add: step_simps step_eqs split: sum.splits)
qed

section \<open>The run as a sequence of steps\<close>

lemma then_do_alt:
  "then_do m k s = (case fst (m s) of Inl st \<Rightarrow> (Inl st, snd (m s)) | Inr v \<Rightarrow> k v (snd (m s)))"
  by (simp add: then_do_def split: prod.splits sum.splits)

lemma then_do_assoc: "then_do (then_do m k) h = then_do m (\<lambda>v. then_do (k v) h)"
  by (rule ext) (simp add: then_do_def split: prod.splits sum.splits)

lemma enterprise_scope_as_steps:
  "enterprise_scope scope_name features w admin_details
     = run_features ''enterprise'' scope_name w admin_details (requested ''enterprise'' features)"
  by (simp add: enterprise_scope_def requested_def scope_order_def step_simps if_requested_def
      then_do_skip_left then_do_skip_right)

lemma organization_scope_as_steps:
  "organization_scope scope_name features w admin_details
     = run_features ''organization'' scope_name w admin_details
         (requested ''organization'' features)"
  by (simp add: organization_scope_def requested_def scope_order_def step_simps if_requested_def
      then_do_skip_left then_do_skip_right)

lemma repository_scope_as_steps:
  "repository_scope scope_name features w admin_details
     = run_features ''repository'' scope_name w admin_details (requested ''repository'' features)"
  by (simp add: repository_scope_def requested_def scope_order_def step_simps if_requested_def
      then_do_skip_left then_do_skip_right)

lemma fetch_admin_details_valid:
  assumes "valid_scope report_scope"
  shows "fetch_admin_details report_scope scope_name w s =
     (case get_repo_admins w scope_name of
        Inl e \<Rightarrow> (Inl (Raised e), s\<lparr>calls := calls s @ [GetRepoAdmins scope_name]\<rparr>)
      | Inr admins \<Rightarrow> (Inr (Map.empty(scope_name \<mapsto> admins)),
                       s\<lparr>calls := calls s @ [GetRepoAdmins scope_name]\<rparr>))"
  using assms
  by (cases rule: valid_scope_cases)
     (simp_all add: fetch_admin_details_def then_do_def api_call_def split: sum.splits)

lemma run_valid:
  assumes "valid_scope report_scope"
  shows "run report_scope scope_name features w s =
     (case get_repo_admins w scope_name of
        Inl e \<Rightarrow> (Inl (Raised e),
                  s\<lparr>stdout := stdout s @ [''Starting GitHub security report...''],
                    calls := calls s @ [GetRepoAdmins scope_name]\<rparr>)
      | Inr admins \<Rightarrow>
          run_features report_scope scope_name w (Map.empty(scope_name \<mapsto> admins))
            (requested report_scope features)
            (s\<lparr>stdout := stdout s @ [''Starting GitHub security report...''],
               calls := calls s @ [GetRepoAdmins scope_name]\<rparr>))"
  using assms
  by (cases rule: valid_scope_cases)
     (simp_all add: run_def then_do_def print_def fetch_admin_details_valid valid_scope_def
        enterprise_scope_as_steps organization_scope_as_steps repository_scope_as_steps
        split: sum.splits)

lemma run_features_append:
  "run_features report_scope scope_name w admin_details (xs @ ys) =
     then_do (run_features report_scope scope_name w admin_details xs)
       (\<lambda>_. run_features report_scope scope_name w admin_details ys)"
  by (induction xs) (simp_all add: then_do_skip_left then_do_assoc)

lemma step_not_exited:
  assumes "valid_scope report_scope"
  shows "fst (step report_scope f scope_name w admin_details s) \<noteq> Inl (Exited msg)"
  using assms by (simp add: step_result write_outcome_not_exited split: sum.splits)

lemma run_features_not_exited:
  assumes "valid_scope report_scope"
  shows "fst (run_features report_scope scope_name w admin_details fs s) \<noteq> Inl (Exited msg)"
proof (induction fs arbitrary: s)
  case Nil
  then show ?case by (simp add: skip_def)
next
  case (Cons f fs)
  show ?case
    using step_not_exited [OF assms, of f scope_name w admin_details s msg] Cons.IH
    by (auto simp: then_do_alt split: sum.splits)
qed

lemma run_features_untouched:
  assumes "valid_scope report_scope" and "\<forall>f \<in> set fs. csv_file report_scope f \<noteq> filename"
  shows "files (snd (run_features report_scope scope_name w admin_details fs s)) filename
           = files s filename"
  using assms(2)
proof (induction fs arbitrary: s)
  case Nil
  then show ?case by (simp add: skip_def)
next
  case (Cons f fs)
  have "files (snd (step report_scope f scope_name w admin_details s)) filename = files s filename"
    using Cons.prems by (auto simp: step_files [OF assms(1)] split: sum.splits)
  with Cons show ?case
    by (simp add: then_do_alt split: sum.splits)
qed

lemma run_features_skip_disabled:
  assumes "valid_scope report_scope"
    and "fetch_result report_scope f0 w = Inl e"
    and "is_disabled (disabled_strings f0) e"
    and "files s1 = files s2"
  shows "fst (run_features report_scope scope_name w admin_details fs s1)
           = fst (run_features report_scope scope_name w admin_details (removeAll f0 fs) s2)
       \<and> files (snd (run_features report_scope scope_name w admin_details fs s1))
           = files (snd (run_features report_scope scope_name w admin_details (removeAll f0 fs) s2))"
  using assms(4)
proof (induction fs arbitrary: s1 s2)
  case Nil
  then show ?case by (simp add: skip_def)
next
  case (Cons f fs)
  show ?case
  proof (cases "f = f0")
    case True
    have r: "fst (step report_scope f0 scope_name w admin_details s1) = Inr ()"
      using assms(2,3) by (simp add: step_result [OF assms(1)])
    have "files (snd (step report_scope f0 scope_name w admin_details s1)) = files s2"
      using assms(2) Cons.prems by (simp add: step_files [OF assms(1)])
    from Cons.IH [OF this] r True show ?thesis
      by (simp add: then_do_alt)
  next
    case False
    have r: "fst (step report_scope f scope_name w admin_details s1)
               = fst (step report_scope f scope_name w admin_details s2)"
      by (simp add: step_result [OF assms(1)])
    have d: "files (snd (step report_scope f scope_name w admin_details s1))
            = files (snd (step report_scope f scope_name w admin_details s2))"
      using Cons.prems by (auto simp: step_files [OF assms(1)] split: sum.splits)
    from Cons.IH [OF d] d r False show ?thesis
      by (simp add: then_do_alt split: sum.splits)
  qed
qed

lemma feature_name_inj: "feature_name f = feature_name g \<longleftrightarrow> f = g"
  by (cases f; cases g) simp_all

lemma requested_removeAll:
  "requested report_scope (removeAll (feature_name f0) features)
     = removeAll f0 (requested report_scope features)"
  by (auto simp: requested_def removeAll_filter_not_eq feature_name_inj intro: filter_cong)

lemma requested_split:
  assumes "feature_name f \<in> set features"
  shows "\<exists>post. requested report_scope features
           = requested report_scope (only_before report_scope f features) @ f # post"
  using assms
  by (cases f) (auto simp: requested_def only_before_def before_def scope_order_def)

lemma requested_only_before_subset:
  "set (requested report_scope (only_before report_scope f features))
     \<subseteq> set (before report_scope f)"
  by (auto simp: requested_def only_before_def feature_name_inj)

lemma not_in_before: "f \<notin> set (before report_scope f)"
  by (cases f) (simp_all add: before_def scope_order_def)

lemma csv_file_inj: "csv_file report_scope f = csv_file report_scope g \<longleftrightarrow> f = g"
  by (cases f; cases g) (simp_all add: csv_file_def)

lemma run_features_stops_at:
  assumes "\<And>s'. fst (step report_scope f0 scope_name w admin_details s') = Inl st"
  shows "run_features report_scope scope_name w admin_details (pre @ f0 # post) s =
     (if fst (run_features report_scope scope_name w admin_details pre s) = Inr ()
      then (Inl st, snd (step report_scope f0 scope_name w admin_details
                      (snd (run_features report_scope scope_name w admin_details pre s))))
      else run_features report_scope scope_name w admin_details pre s)"
  using assms
  by (cases "run_features report_scope scope_name w admin_details pre s")
     (auto simp: run_features_append then_do_alt split: sum.splits)

lemma fetch_result_guarded:
  assumes "f = SecretScanning \<or> f = Dependabot"
  shows "fetch_result report_scope f w = fetch_alerts w (scope_fetcher report_scope f)"
  using assms by (auto simp: fetch_result_def)

lemma run_features_result_cases:
  assumes "valid_scope report_scope"
  obtains "fst (run_features report_scope scope_name w admin_details fs s) = Inr ()"
  | e where "fst (run_features report_scope scope_name w admin_details fs s) = Inl (Raised e)"
proof (cases "fst (run_features report_scope scope_name w admin_details fs s)")
  case (Inl st)
  then show ?thesis
    using run_features_not_exited [OF assms, of scope_name w admin_details fs s] that(2)
    by (cases st) auto
next
  case (Inr u)
  then show ?thesis using that(1) by simp
qed

lemma run_features_before_untouched:
  assumes "valid_scope report_scope" and "g \<notin> set (before report_scope f)"
  shows "files (snd (run_features report_scope scope_name w admin_details
                   (requested report_scope (only_before report_scope f features)) s))
           (csv_file report_scope g) = files s (csv_file report_scope g)"
proof (rule run_features_untouched [OF assms(1)])
  show "\<forall>f' \<in> set (requested report_scope (only_before report_scope f features)).
          csv_file report_scope f' \<noteq> csv_file report_scope g"
    using requested_only_before_subset [of report_scope f features] assms(2)
    by (auto simp: csv_file_inj)
qed

lemma run_features_raises:
  assumes "valid_scope report_scope"
    and "feature_name f \<in> set features"
    and "fetch_result report_scope f w = Inl e"
    and "\<not> is_disabled (disabled_strings f) e"
  shows "(\<exists>e'. fst (run_features report_scope scope_name w admin_details
                     (requested report_scope features) s) = Inl (Raised e'))
     \<and> (fst (run_features report_scope scope_name w admin_details
               (requested report_scope (only_before report_scope f features)) s) = Inr ()
          \<longrightarrow> fst (run_features report_scope scope_name w admin_details
                     (requested report_scope features) s) = Inl (Raised e))
     \<and> files (snd (run_features report_scope scope_name w admin_details
                     (requested report_scope features) s))
         = files (snd (run_features report_scope scope_name w admin_details
                     (requested report_scope (only_before report_scope f features)) s))"
proof -
  let ?pre = "requested report_scope (only_before report_scope f features)"
  from requested_split [OF assms(2)] obtain post
    where sp: "requested report_scope features = ?pre @ f # post" by blast
  have st: "\<And>s'. fst (step report_scope f scope_name w admin_details s') = Inl (Raised e)"
    using assms(3,4) by (simp add: step_result [OF assms(1)])
  have sf: "\<And>s'. files (snd (step report_scope f scope_name w admin_details s')) = files s'"
    using assms(3) by (simp add: step_files [OF assms(1)])
  note eq = run_features_stops_at [of report_scope f scope_name w admin_details "Raised e"
      ?pre post s, OF st]
  show ?thesis
  proof (cases rule: run_features_result_cases [OF assms(1), of scope_name w admin_details ?pre s])
    case 1
    then show ?thesis by (simp add: sp eq sf)
  next
    case (2 e')
    then show ?thesis by (simp add: sp eq)
  qed
qed

section \<open>The Admins column\<close>

lemma csv_row_of_Inr:
  assumes "csv_row_of scope_name admin_details row = Inr r"
  shows "\<exists>admins.
           admin_get admin_details
             (case map_of row ''repository'' of None \<Rightarrow> env_val scope_name | Some v \<Rightarrow> v)
             = Inr admins
         \<and> r = map snd row @ [PStr (join '', '' admins)]"
  using assms by (auto simp: csv_row_of_def Let_def split: sum.splits)

lemma csv_row_of_no_repository:
  assumes "map_of row ''repository'' = None"
  shows "csv_row_of scope_name admin_details row =
           Inr (map snd row @ [PStr (join '', '' (admins_or_empty admin_details scope_name))])"
  using assms by (cases scope_name) (simp_all add: csv_row_of_def env_val_def)

lemma csv_row_of_hashable:
  "hashable_repository row \<longleftrightarrow> (\<exists>r. csv_row_of scope_name admin_details row = Inr r)"
proof (cases "map_of row ''repository''")
  case None
  then show ?thesis
    by (simp add: hashable_repository_def csv_row_of_no_repository)
next
  case (Some v)
  then show ?thesis
    by (cases v) (simp_all add: hashable_repository_def csv_row_of_def)
qed

lemma admin_get_singleton:
  assumes "admin_get (Map.empty(scope_name \<mapsto> admins)) v = Inr found"
  shows "found = (if v = env_val scope_name then admins else [])"
  using assms by (cases v; cases scope_name) (auto simp: admins_or_empty_def env_val_def)

lemma admins_or_empty_singleton:
  "admins_or_empty (Map.empty(scope_name \<mapsto> admins)) scope_name = admins"
  by (simp add: admins_or_empty_def)

lemma length_written_rows:
  "length (written_rows scope_name admin_details data) \<le> length data"
  by (induction data) (auto split: sum.splits)

lemma written_rows_nth:
  "i < length (written_rows scope_name admin_details data)
     \<Longrightarrow> csv_row_of scope_name admin_details (data ! i)
           = Inr (written_rows scope_name admin_details data ! i)"
proof (induction data arbitrary: i)
  case Nil
  then show ?case by simp
next
  case (Cons row rest)
  then show ?case by (cases i) (auto split: sum.splits)
qed

lemma written_rows_reaches:
  assumes "i < length data" and "\<forall>j<i. hashable_repository (data ! j)"
    and "hashable_repository (data ! i)"
  shows "i < length (written_rows scope_name admin_details data)"
  using assms
proof (induction data arbitrary: i)
  case Nil
  then show ?case by simp
next
  case (Cons row rest)
  show ?case
  proof (cases i)
    case 0
    with Cons.prems(3) show ?thesis
      by (auto simp: csv_row_of_hashable [of row scope_name admin_details])
  next
    case (Suc k)
    have h: "hashable_repository row" using Cons.prems(2) Suc by auto
    then obtain r where r: "csv_row_of scope_name admin_details row = Inr r"
      by (auto simp: csv_row_of_hashable [of row scope_name admin_details])
    have "k < length rest" using Cons.prems(1) Suc by simp
    moreover have "\<forall>j<k. hashable_repository (rest ! j)"
      using Cons.prems(2) Suc by auto
    moreover have "hashable_repository (rest ! k)" using Cons.prems(3) Suc by simp
    ultimately have "k < length (written_rows scope_name admin_details rest)"
      by (rule Cons.IH)
    with r Suc show ?thesis by simp
  qed
qed

lemma written_rows_all:
  assumes "\<forall>row\<in>set data. hashable_repository row"
  shows "length (written_rows scope_name admin_details data) = length data"
    and "write_error scope_name admin_details data = None"
  using assms
  by (induction data) (auto simp: csv_row_of_hashable [of _ scope_name admin_details])


lemma write_file:
  "files (snd (write_csv_with_admins scope_name filename (first # rest) admin_details s))
     filename
   = Some ((map (\<lambda>kv. PStr (fst kv)) first @ [PStr ''Admins''])
            # written_rows scope_name admin_details (first # rest))"
  by (simp add: write_csv_eq csv_of_def)
section \<open>The trace of API calls\<close>

lemma map_filter_append:
  "List.map_filter g (xs @ ys) = List.map_filter g xs @ List.map_filter g ys"
  by (simp add: List.map_filter_def)

lemma map_filter_all_same:
  assumes "\<forall>c \<in> set t. g c = Some f"
  shows "List.map_filter g t = replicate (length t) f"
  using assms by (induction t) (simp_all add: List.map_filter_def)

lemma remdups_adj_replicate_append:
  assumes "0 < n" and "f \<notin> set ys"
  shows "remdups_adj (replicate n f @ ys) = f # remdups_adj ys"
  using assms
proof (induction n)
  case 0
  then show ?case by simp
next
  case (Suc n)
  show ?case
  proof (cases n)
    case 0
    with Suc.prems show ?thesis by (cases ys) auto
  next
    case (Suc m)
    with Suc.IH Suc.prems show ?thesis by simp
  qed
qed

lemma run_features_trace:
  assumes "valid_scope report_scope" and "distinct fs"
  shows "\<exists>t. calls (snd (run_features report_scope scope_name w admin_details fs s)) = calls s @ t
       \<and> set (List.map_filter call_feature t) \<subseteq> set fs
       \<and> (\<exists>rest. fs = fetched_features t @ rest)
       \<and> (fst (run_features report_scope scope_name w admin_details fs s) = Inr ()
            \<longrightarrow> fetched_features t = fs)"
  using assms(2)
proof (induction fs arbitrary: s)
  case Nil
  then show ?case by (simp add: skip_def fetched_features_def List.map_filter_def)
next
  case (Cons f fs)
  let ?s1 = "snd (step report_scope f scope_name w admin_details s)"
  from step_calls [OF assms(1), of f scope_name w admin_details s]
  obtain t1 where t1: "calls ?s1 = calls s @ t1" "t1 \<noteq> []" "\<forall>c \<in> set t1. call_feature c = Some f"
    by blast
  have m1: "List.map_filter call_feature t1 = replicate (length t1) f"
    using t1(3) by (rule map_filter_all_same)
  have f1: "fetched_features t1 = [f]"
    using t1(2) by (simp add: fetched_features_def m1 remdups_adj_replicate)
  show ?case
  proof (cases "fst (step report_scope f scope_name w admin_details s)")
    case (Inl st)
    then have "run_features report_scope scope_name w admin_details (f # fs) s = (Inl st, ?s1)"
      by (simp add: then_do_alt)
    with t1 m1 f1 show ?thesis by auto
  next
    case (Inr u)
    then have r: "run_features report_scope scope_name w admin_details (f # fs) s
                    = run_features report_scope scope_name w admin_details fs ?s1"
      by (simp add: then_do_alt)
    from Cons.prems have d: "distinct fs" and nf: "f \<notin> set fs" by simp_all
    from Cons.IH [OF d, of ?s1] obtain t2 rest
      where t2: "calls (snd (run_features report_scope scope_name w admin_details fs ?s1))
                   = calls ?s1 @ t2"
        and sub: "set (List.map_filter call_feature t2) \<subseteq> set fs"
        and pre: "fs = fetched_features t2 @ rest"
        and fin: "fst (run_features report_scope scope_name w admin_details fs ?s1) = Inr ()
                    \<longrightarrow> fetched_features t2 = fs"
      by blast
    have nin: "f \<notin> set (List.map_filter call_feature t2)" using sub nf by blast
    have ff: "fetched_features (t1 @ t2) = f # fetched_features t2"
      using t1(2) nin
      by (simp add: fetched_features_def map_filter_append m1 remdups_adj_replicate_append)
    have "calls (snd (run_features report_scope scope_name w admin_details (f # fs) s))
            = calls s @ (t1 @ t2)"
      using r t1(1) t2 by simp
    moreover have "set (List.map_filter call_feature (t1 @ t2)) \<subseteq> set (f # fs)"
      using sub by (auto simp: map_filter_append m1)
    moreover have "\<exists>rest. f # fs = fetched_features (t1 @ t2) @ rest"
      using pre ff by simp
    moreover have "fst (run_features report_scope scope_name w admin_details (f # fs) s) = Inr ()
            \<longrightarrow> fetched_features (t1 @ t2) = f # fs"
      using fin r ff by simp
    ultimately show ?thesis by blast
  qed
qed

lemma distinct_requested: "distinct (requested report_scope features)"
  by (simp add: requested_def scope_order_def)

lemma step_other_calls:
  assumes "valid_scope report_scope" and "g \<noteq> f"
  shows "calls_of g (calls (snd (step report_scope f scope_name w admin_details s)))
           = calls_of g (calls s)"
proof -
  from step_calls [OF assms(1), of f scope_name w admin_details s]
  obtain t where t: "calls (snd (step report_scope f scope_name w admin_details s)) = calls s @ t"
    "\<forall>c \<in> set t. call_feature c = Some f" by blast
  have "calls_of g t = []" using t(2) assms(2) by (auto simp: calls_of_def filter_empty_conv)
  with t(1) show ?thesis by (simp add: calls_of_def)
qed

lemma run_features_other_calls:
  assumes "valid_scope report_scope" and "g \<notin> set fs"
  shows "calls_of g (calls (snd (run_features report_scope scope_name w admin_details fs s)))
           = calls_of g (calls s)"
  using assms(2)
proof (induction fs arbitrary: s)
  case Nil
  then show ?case by (simp add: skip_def)
next
  case (Cons f fs)
  then have "g \<noteq> f" and "g \<notin> set fs" by auto
  with Cons.IH step_other_calls [OF assms(1), of g f scope_name w admin_details s]
  show ?case by (simp add: then_do_alt split: sum.splits)
qed

lemma run_features_from_step:
  assumes "valid_scope report_scope" and "g \<notin> set post"
  shows "calls_of g (calls (snd (run_features report_scope scope_name w admin_details
                                   (g # post) s)))
           = calls_of g (calls (snd (step report_scope g scope_name w admin_details s)))
       \<and> files (snd (run_features report_scope scope_name w admin_details (g # post) s))
             (csv_file report_scope g)
           = files (snd (step report_scope g scope_name w admin_details s))
               (csv_file report_scope g)"
proof -
  have "\<forall>f \<in> set post. csv_file report_scope f \<noteq> csv_file report_scope g"
    using assms(2) by (auto simp: csv_file_inj)
  from run_features_untouched [OF assms(1) this]
    run_features_other_calls [OF assms(1) assms(2)]
  show ?thesis by (simp add: then_do_alt split: sum.splits)
qed

lemma run_features_reaches:
  assumes "valid_scope report_scope" and "feature_name g \<in> set features"
    and "fst (run_features report_scope scope_name w admin_details
                (requested report_scope (only_before report_scope g features)) s) = Inr ()"
  shows "\<exists>s1. calls_of g (calls s1) = calls_of g (calls s)
       \<and> calls_of g (calls (snd (run_features report_scope scope_name w admin_details
                                   (requested report_scope features) s)))
           = calls_of g (calls (snd (step report_scope g scope_name w admin_details s1)))
       \<and> files (snd (run_features report_scope scope_name w admin_details
                        (requested report_scope features) s)) (csv_file report_scope g)
           = files (snd (step report_scope g scope_name w admin_details s1))
               (csv_file report_scope g)"
proof -
  let ?pre = "requested report_scope (only_before report_scope g features)"
  let ?s1 = "snd (run_features report_scope scope_name w admin_details ?pre s)"
  from requested_split [OF assms(2)] obtain post
    where sp: "requested report_scope features = ?pre @ g # post" by blast
  from distinct_requested [of report_scope features] sp
  have np: "g \<notin> set ?pre" and nq: "g \<notin> set post" by auto
  have "run_features report_scope scope_name w admin_details (requested report_scope features) s
          = run_features report_scope scope_name w admin_details (g # post) ?s1"
    using assms(3) by (simp add: sp run_features_append then_do_alt)
  with run_features_from_step [OF assms(1) nq, of scope_name w admin_details ?s1]
    run_features_other_calls [OF assms(1) np, of scope_name w admin_details s]
  show ?thesis by auto
qed

lemma enterprise_cs_server:
  assumes "startswith version ''3.5'' \<or> startswith version ''3.6''"
    and "get_enterprise_version w = Inr version"
    and "get_repo_report w = Inr repo_list"
  shows "calls (snd (step ''enterprise'' CodeScanning scope_name w admin_details s))
           = calls s @ [GetEnterpriseVersion, GetRepoReport,
                        Fetch (ListEnterpriseServerCsAlerts repo_list)]
       \<and> (fetch_alerts w (ListEnterpriseServerCsAlerts repo_list) = Inr cs_list \<longrightarrow>
            files (snd (step ''enterprise'' CodeScanning scope_name w admin_details s))
              ''enterprise_code_scanning.csv'' = Some (csv_of scope_name admin_details cs_list))"
  using assms
  by (simp add: step_simps enterprise_code_scanning_step_eq code_scanning_step_eq
      split: sum.splits)

lemma enterprise_cs_cloud:
  assumes "\<not> (startswith version ''3.5'' \<or> startswith version ''3.6'')"
    and "get_enterprise_version w = Inr version"
  shows "calls (snd (step ''enterprise'' CodeScanning scope_name w admin_details s))
           = calls s @ [GetEnterpriseVersion, Fetch ListEnterpriseCloudCsAlerts]
       \<and> (fetch_alerts w ListEnterpriseCloudCsAlerts = Inr cs_list \<longrightarrow>
            files (snd (step ''enterprise'' CodeScanning scope_name w admin_details s))
              ''enterprise_code_scanning.csv'' = Some (csv_of scope_name admin_details cs_list))"
  using assms
  by (simp add: step_simps enterprise_code_scanning_step_eq code_scanning_step_eq
      split: sum.splits)

lemma calls_of_code_scanning:
  "calls_of CodeScanning (t @ [GetEnterpriseVersion, GetRepoReport,
                               Fetch (ListEnterpriseServerCsAlerts repo_list)])
     = calls_of CodeScanning t @ [GetEnterpriseVersion, GetRepoReport,
                                  Fetch (ListEnterpriseServerCsAlerts repo_list)]"
  "calls_of CodeScanning (t @ [GetEnterpriseVersion, Fetch ListEnterpriseCloudCsAlerts])
     = calls_of CodeScanning t @ [GetEnterpriseVersion, Fetch ListEnterpriseCloudCsAlerts]"
  by (simp_all add: calls_of_def)


lemma run_writes_file:
  assumes "valid_scope report_scope" and "feature_name g \<in> set features"
    and "fst (run report_scope scope_name (only_before report_scope g features) w s) = Inr ()"
    and "fetch_result report_scope g w = Inr data"
  shows "\<exists>admins. get_repo_admins w scope_name = Inr admins
       \<and> files (snd (run report_scope scope_name features w s)) (csv_file report_scope g)
           = Some (csv_of scope_name (Map.empty(scope_name \<mapsto> admins)) data)"
proof (cases "get_repo_admins w scope_name")
  case (Inl e)
  with assms(3) show ?thesis by (simp add: run_valid [OF assms(1)])
next
  case (Inr admins)
  let ?ad = "Map.empty(scope_name \<mapsto> admins)"
  let ?s0 = "s\<lparr>stdout := stdout s @ [''Starting GitHub security report...''],
             calls := calls s @ [GetRepoAdmins scope_name]\<rparr>"
  have pre: "fst (run_features report_scope scope_name w ?ad
                (requested report_scope (only_before report_scope g features)) ?s0) = Inr ()"
    using assms(3) Inr by (simp add: run_valid [OF assms(1)])
  from run_features_reaches [OF assms(1,2) pre] obtain s1 where
    "files (snd (run_features report_scope scope_name w ?ad
                        (requested report_scope features) ?s0)) (csv_file report_scope g)
           = files (snd (step report_scope g scope_name w ?ad s1)) (csv_file report_scope g)"
    by blast
  then have "files (snd (run report_scope scope_name features w s)) (csv_file report_scope g)
           = Some (csv_of scope_name ?ad data)"
    using Inr assms(4) by (simp add: run_valid [OF assms(1)] step_files [OF assms(1)])
  with Inr show ?thesis by simp
qed
section \<open>The claims\<close>

subsection \<open>The report writer\<close>




subsection \<open>The feature list\<close>

text \<open>
  The example of the specification: \<open>FEATURES=secretscanning,bogus\<close> resolves to
  \<open>secretscanning\<close> alone.
\<close>

lemma resolve_features_example:
  "fst (resolve_features (Some ''secretscanning,bogus'')) = [''secretscanning'']"
  by code_simp

text \<open>
  Claim C3. The claim is that every requested name outside the allow-list is dropped.
  The loop removes elements from the list it iterates, so the element that follows a
  removed one is never examined: for \<open>FEATURES=bogus1,bogus2\<close> the resolved list is
  \<open>bogus2\<close>, which is not a valid feature name.
\<close>

theorem resolve_features_keeps_invalid_name:
  "fst (resolve_features (Some ''bogus1,bogus2'')) = [''bogus2'']
   \<and> ''bogus2'' \<notin> set FEATURES"
  by code_simp

subsection \<open>The scope\<close>

text \<open>
  Claim C8. For a report scope other than \<open>enterprise\<close>, \<open>organization\<close> and
  \<open>repository\<close> the run ends by \<open>exit("Invalid report scope")\<close>: the exit status is not
  zero, no API call has been made and no file has been touched. The same holds of the
  whole script when the environment gives such a scope.
\<close>

theorem invalid_scope_exits:
  assumes "\<not> valid_scope report_scope"
  shows "fst (run report_scope scope_name features w s) = Inl (Exited ''Invalid report scope'')
    \<and> exit_status (fst (run report_scope scope_name features w s)) \<noteq> 0
    \<and> files (snd (run report_scope scope_name features w s)) = files s
    \<and> calls (snd (run report_scope scope_name features w s)) = calls s
    \<and> (env ''GITHUB_REPORT_SCOPE'' = Some report_scope \<longrightarrow>
          fst (script env w disk) = Inl (Exited ''Invalid report scope'')
          \<and> exit_status (fst (script env w disk)) \<noteq> 0
          \<and> files (snd (script env w disk)) = disk
          \<and> calls (snd (script env w disk)) = [])"
proof -
  have a: "run report_scope sn fs w s0
             = (Inl (Exited ''Invalid report scope''),
                s0\<lparr>stdout := stdout s0 @ [''Starting GitHub security report...'']\<rparr>)"
    for sn fs s0
    using assms
    by (simp add: valid_scope_def run_def then_do_def print_def fetch_admin_details_def)
  show ?thesis
    by (simp add: a script_def Let_def init_state_def split: prod.splits)
qed

theorem invalid_scope_exits_witness:
  "\<not> valid_scope ''team''
   \<and> fst (run ''team'' (Some ''o/r'') FEATURES (mock_world ''3.9.0'' all_enabled)
            (init_state Map.empty))
        = Inl (Exited ''Invalid report scope'')
   \<and> exit_status (fst (run ''team'' (Some ''o/r'') FEATURES (mock_world ''3.9.0'' all_enabled)
            (init_state Map.empty))) \<noteq> 0
   \<and> files (snd (run ''team'' (Some ''o/r'') FEATURES (mock_world ''3.9.0'' all_enabled)
            (init_state Map.empty))) = Map.empty
   \<and> calls (snd (run ''team'' (Some ''o/r'') FEATURES (mock_world ''3.9.0'' all_enabled)
            (init_state Map.empty))) = []"
  using invalid_scope_exits [of "''team''" "Some ''o/r''" FEATURES
      "mock_world ''3.9.0'' all_enabled" "init_state Map.empty"]
  by (simp add: valid_scope_def init_state_def)

subsection \<open>Disabled features\<close>

text \<open>
  Claim C1, as stated, covers the code scanning fetch as well. The code scanning steps
  have no \<open>try\<close> around them, in any scope: an exception of the code scanning fetch ends
  the run whatever its text. In the world below the code scanning fetch of a repository
  raises a text that contains a known phrase; the run ends with that exception, and the
  Dependabot fetch, which comes next, is never made.
\<close>

theorem disabled_code_scanning_terminates:
  "is_disabled secret_scanning_disabled_strings
       (FetchError ''Secret scanning is disabled on this repository.'')
   \<and> fetch_alerts cs_disabled_world ListRepoCsAlerts
       = Inl (FetchError ''Secret scanning is disabled on this repository.'')
   \<and> fst (run ''repository'' (Some ''o/r'') FEATURES cs_disabled_world (init_state Map.empty))
       = Inl (Raised (FetchError ''Secret scanning is disabled on this repository.''))
   \<and> calls (snd (run ''repository'' (Some ''o/r'') FEATURES cs_disabled_world
                   (init_state Map.empty)))
       = [GetRepoAdmins (Some ''o/r''), Fetch ListRepoCsAlerts]"
  by code_simp

text \<open>
  Claim C1, amended. In every scope, when the secret scanning fetch raises an exception
  whose lowercased text contains a phrase of \<open>secret_scanning_disabled_strings\<close>, or the
  Dependabot fetch one whose lowercased text contains a phrase of
  \<open>dependabot_disabled_strings\<close>, the step of that feature ends normally and leaves every
  file as it was, and the run goes on as if the feature had not been requested: it has
  the same result and leaves the same files as the run without that feature. The code
  scanning fetch has no such handling: in every scope, when code scanning is requested
  and its fetch raises an exception, whatever its text, the run ends with an exception,
  with that very exception whenever the features handled before finish normally, and
  the files at the end are those that the run of the earlier features alone leaves.
\<close>

theorem disabled_feature_is_skipped:
  assumes "valid_scope report_scope"
  shows "((f = SecretScanning \<or> f = Dependabot)
          \<and> fetch_alerts w (scope_fetcher report_scope f) = Inl e
          \<and> is_disabled (disabled_strings f) e
        \<longrightarrow> fst (step report_scope f scope_name w admin_details s) = Inr ()
          \<and> files (snd (step report_scope f scope_name w admin_details s)) = files s
          \<and> fst (run report_scope scope_name features w s)
              = fst (run report_scope scope_name (removeAll (feature_name f) features) w s)
          \<and> files (snd (run report_scope scope_name features w s))
              = files (snd (run report_scope scope_name
                              (removeAll (feature_name f) features) w s)))
       \<and> (feature_name CodeScanning \<in> set features
          \<and> fetch_result report_scope CodeScanning w = Inl e
        \<longrightarrow> (\<exists>e'. fst (run report_scope scope_name features w s) = Inl (Raised e'))
          \<and> (fst (run report_scope scope_name
                     (only_before report_scope CodeScanning features) w s) = Inr ()
               \<longrightarrow> fst (run report_scope scope_name features w s) = Inl (Raised e))
          \<and> files (snd (run report_scope scope_name features w s))
              = files (snd (run report_scope scope_name
                              (only_before report_scope CodeScanning features) w s)))"
proof -
  let ?s0 = "s\<lparr>stdout := stdout s @ [''Starting GitHub security report...''],
             calls := calls s @ [GetRepoAdmins scope_name]\<rparr>"
  have skipped: "fst (step report_scope f scope_name w admin_details s) = Inr ()
          \<and> files (snd (step report_scope f scope_name w admin_details s)) = files s
          \<and> fst (run report_scope scope_name features w s)
              = fst (run report_scope scope_name (removeAll (feature_name f) features) w s)
          \<and> files (snd (run report_scope scope_name features w s))
              = files (snd (run report_scope scope_name
                              (removeAll (feature_name f) features) w s))"
    if g: "f = SecretScanning \<or> f = Dependabot"
      and r: "fetch_alerts w (scope_fetcher report_scope f) = Inl e"
      and d: "is_disabled (disabled_strings f) e"
  proof -
    have fr: "fetch_result report_scope f w = Inl e"
      using g r by (simp add: fetch_result_guarded)
    have a: "fst (step report_scope f scope_name w admin_details s) = Inr ()"
      using fr d by (simp add: step_result [OF assms])
    have b: "files (snd (step report_scope f scope_name w admin_details s)) = files s"
      using fr by (simp add: step_files [OF assms])
    have c: "fst (run report_scope scope_name features w s)
             = fst (run report_scope scope_name (removeAll (feature_name f) features) w s)
         \<and> files (snd (run report_scope scope_name features w s))
             = files (snd (run report_scope scope_name
                             (removeAll (feature_name f) features) w s))"
    proof (cases "get_repo_admins w scope_name")
      case (Inl e0)
      then show ?thesis by (simp add: run_valid [OF assms])
    next
      case (Inr admins)
      then show ?thesis
        using run_features_skip_disabled [OF assms fr d refl]
        by (simp add: run_valid [OF assms] requested_removeAll)
    qed
    from a b c show ?thesis by simp
  qed
  have raised: "(\<exists>e'. fst (run report_scope scope_name features w s) = Inl (Raised e'))
          \<and> (fst (run report_scope scope_name
                     (only_before report_scope CodeScanning features) w s) = Inr ()
               \<longrightarrow> fst (run report_scope scope_name features w s) = Inl (Raised e))
          \<and> files (snd (run report_scope scope_name features w s))
              = files (snd (run report_scope scope_name
                              (only_before report_scope CodeScanning features) w s))"
    if q: "feature_name CodeScanning \<in> set features"
      and r: "fetch_result report_scope CodeScanning w = Inl e"
  proof (cases "get_repo_admins w scope_name")
    case (Inl e0)
    then show ?thesis by (simp add: run_valid [OF assms])
  next
    case (Inr admins)
    have nd: "\<not> is_disabled (disabled_strings CodeScanning) e"
      by (simp add: is_disabled_Nil)
    from Inr show ?thesis
      using run_features_raises [OF assms q r nd, of scope_name
          "Map.empty(scope_name \<mapsto> admins)" ?s0]
      by (simp add: run_valid [OF assms])
  qed
  from skipped raised show ?thesis by blast
qed

theorem disabled_feature_is_skipped_witness:
  "valid_scope ''organization''
   \<and> fetch_alerts dependabot_disabled_world (scope_fetcher ''organization'' Dependabot)
       = Inl (FetchError ''Dependabot alerts are disabled for this organization.'')
   \<and> is_disabled (disabled_strings Dependabot)
       (FetchError ''Dependabot alerts are disabled for this organization.'')
   \<and> fst (run ''organization'' (Some ''octo'') FEATURES dependabot_disabled_world
            (init_state Map.empty))
       = fst (run ''organization'' (Some ''octo'') (removeAll ''dependabot'' FEATURES)
               dependabot_disabled_world (init_state Map.empty))
   \<and> files (snd (run ''organization'' (Some ''octo'') FEATURES dependabot_disabled_world
            (init_state Map.empty)))
       = files (snd (run ''organization'' (Some ''octo'') (removeAll ''dependabot'' FEATURES)
               dependabot_disabled_world (init_state Map.empty)))
   \<and> valid_scope ''repository''
   \<and> feature_name CodeScanning \<in> set FEATURES
   \<and> fetch_result ''repository'' CodeScanning cs_disabled_world
       = Inl (FetchError ''Secret scanning is disabled on this repository.'')
   \<and> fst (run ''repository'' (Some ''o/r'')
            (only_before ''repository'' CodeScanning FEATURES) cs_disabled_world
            (init_state Map.empty)) = Inr ()
   \<and> fst (run ''repository'' (Some ''o/r'') FEATURES cs_disabled_world
            (init_state Map.empty))
       = Inl (Raised (FetchError ''Secret scanning is disabled on this repository.''))"
proof -
  have h1: "valid_scope ''organization''" by code_simp
  have h2: "Dependabot = SecretScanning \<or> Dependabot = Dependabot" by simp
  have h3: "fetch_alerts dependabot_disabled_world (scope_fetcher ''organization'' Dependabot)
       = Inl (FetchError ''Dependabot alerts are disabled for this organization.'')"
    by code_simp
  have h4: "is_disabled (disabled_strings Dependabot)
       (FetchError ''Dependabot alerts are disabled for this organization.'')"
    by code_simp
  have k1: "valid_scope ''repository''" by code_simp
  have k2: "feature_name CodeScanning \<in> set FEATURES" by code_simp
  have k3: "fetch_result ''repository'' CodeScanning cs_disabled_world
       = Inl (FetchError ''Secret scanning is disabled on this repository.'')" by code_simp
  have k4: "fst (run ''repository'' (Some ''o/r'')
            (only_before ''repository'' CodeScanning FEATURES) cs_disabled_world
            (init_state Map.empty)) = Inr ()" by code_simp
  from disabled_feature_is_skipped [OF h1, of Dependabot dependabot_disabled_world
      "FetchError ''Dependabot alerts are disabled for this organization.''"
      "Some ''octo''" Map.empty "init_state Map.empty" FEATURES] h2 h3 h4
  have a: "fst (run ''organization'' (Some ''octo'') FEATURES dependabot_disabled_world
            (init_state Map.empty))
       = fst (run ''organization'' (Some ''octo'') (removeAll ''dependabot'' FEATURES)
               dependabot_disabled_world (init_state Map.empty))
   \<and> files (snd (run ''organization'' (Some ''octo'') FEATURES dependabot_disabled_world
            (init_state Map.empty)))
       = files (snd (run ''organization'' (Some ''octo'') (removeAll ''dependabot'' FEATURES)
               dependabot_disabled_world (init_state Map.empty)))"
    by simp
  from disabled_feature_is_skipped [OF k1, of CodeScanning cs_disabled_world
      "FetchError ''Secret scanning is disabled on this repository.''"
      "Some ''o/r''" Map.empty "init_state Map.empty" FEATURES] k2 k3 k4
  have b: "fst (run ''repository'' (Some ''o/r'') FEATURES cs_disabled_world
            (init_state Map.empty))
       = Inl (Raised (FetchError ''Secret scanning is disabled on this repository.''))"
    by blast
  from a b h1 h3 h4 k1 k2 k3 k4 show ?thesis by blast
qed
subsection \<open>Other exceptions\<close>

text \<open>
  Claim C6. Let the fetch of a requested feature raise an exception whose lowercased
  text contains no phrase of either list. Then the run ends with an exception. It is
  that very exception whenever the features handled before finish normally. The files at
  the end are the files that the run of those earlier features alone leaves: nothing is
  rolled back, and the CSV file of the failing feature and of every later feature of the
  scope is as it was before the run.
\<close>

theorem other_exception_terminates_run:
  assumes "valid_scope report_scope"
    and "feature_name f \<in> set features"
    and "fetch_result report_scope f w = Inl e"
    and "\<not> is_disabled secret_scanning_disabled_strings e"
    and "\<not> is_disabled dependabot_disabled_strings e"
  shows "(\<exists>e'. fst (run report_scope scope_name features w s) = Inl (Raised e'))
     \<and> (fst (run report_scope scope_name (only_before report_scope f features) w s) = Inr ()
          \<longrightarrow> fst (run report_scope scope_name features w s) = Inl (Raised e))
     \<and> files (snd (run report_scope scope_name features w s))
         = files (snd (run report_scope scope_name (only_before report_scope f features) w s))
     \<and> (\<forall>g. g \<notin> set (before report_scope f) \<longrightarrow>
           files (snd (run report_scope scope_name features w s)) (csv_file report_scope g)
             = files s (csv_file report_scope g))"
proof -
  have nd: "\<not> is_disabled (disabled_strings f) e"
    using assms(4,5) by (cases f) (simp_all add: is_disabled_Nil)
  show ?thesis
  proof (cases "get_repo_admins w scope_name")
    case (Inl e0)
    then show ?thesis by (simp add: run_valid [OF assms(1)])
  next
    case (Inr admins)
    then show ?thesis
      using run_features_raises [OF assms(1,2,3) nd, of scope_name "Map.empty(scope_name \<mapsto> admins)"
          "s\<lparr>stdout := stdout s @ [''Starting GitHub security report...''],
             calls := calls s @ [GetRepoAdmins scope_name]\<rparr>"]
      by (simp add: run_valid [OF assms(1)] run_features_before_untouched [OF assms(1)])
  qed
qed

theorem other_exception_terminates_run_witness:
  "valid_scope ''repository''
   \<and> feature_name Dependabot \<in> set FEATURES
   \<and> fetch_result ''repository'' Dependabot server_error_world
       = Inl (FetchError ''500 Server Error: Internal Server Error'')
   \<and> \<not> is_disabled secret_scanning_disabled_strings
         (FetchError ''500 Server Error: Internal Server Error'')
   \<and> \<not> is_disabled dependabot_disabled_strings
         (FetchError ''500 Server Error: Internal Server Error'')
   \<and> fst (run ''repository'' (Some ''o/r'') FEATURES server_error_world (init_state Map.empty))
       = Inl (Raised (FetchError ''500 Server Error: Internal Server Error''))
   \<and> files (snd (run ''repository'' (Some ''o/r'') FEATURES server_error_world
                   (init_state Map.empty))) (csv_file ''repository'' SecretScanning) = None"
proof -
  have h1: "valid_scope ''repository''" by code_simp
  have h2: "feature_name Dependabot \<in> set FEATURES" by code_simp
  have h3: "fetch_result ''repository'' Dependabot server_error_world
       = Inl (FetchError ''500 Server Error: Internal Server Error'')" by code_simp
  have h4: "\<not> is_disabled secret_scanning_disabled_strings
         (FetchError ''500 Server Error: Internal Server Error'')" by code_simp
  have h5: "\<not> is_disabled dependabot_disabled_strings
         (FetchError ''500 Server Error: Internal Server Error'')" by code_simp
  have r: "fst (run ''repository'' (Some ''o/r'') (only_before ''repository'' Dependabot FEATURES)
                  server_error_world (init_state Map.empty)) = Inr ()" by code_simp
  have b: "SecretScanning \<notin> set (before ''repository'' Dependabot)" by code_simp
  have i: "files (init_state Map.empty) (csv_file ''repository'' SecretScanning) = None"
    by (simp add: init_state_def)
  note t = other_exception_terminates_run [OF h1 h2 h3 h4 h5, of "Some ''o/r''"
      "init_state Map.empty"]
  from t r have a: "fst (run ''repository'' (Some ''o/r'') FEATURES server_error_world
      (init_state Map.empty)) = Inl (Raised (FetchError ''500 Server Error: Internal Server Error''))"
    by blast
  from t b have "files (snd (run ''repository'' (Some ''o/r'') FEATURES server_error_world
                   (init_state Map.empty))) (csv_file ''repository'' SecretScanning)
      = files (init_state Map.empty) (csv_file ''repository'' SecretScanning)"
    by blast
  with i have c: "files (snd (run ''repository'' (Some ''o/r'') FEATURES server_error_world
                   (init_state Map.empty))) (csv_file ''repository'' SecretScanning) = None"
    by simp
  from h1 h2 h3 h4 h5 a c show ?thesis by simp
qed

subsection \<open>No alerts\<close>

text \<open>
  Claim C9. On the empty list \<open>write_csv_with_admins\<close> raises \<open>IndexError\<close>, after the
  file has been opened and so emptied. Hence a run in which the fetch of a requested
  feature returns no alert ends with an exception: with \<open>IndexError\<close>, the file of the
  feature left empty, whenever the features handled before finish normally. In no case
  does the file of the feature hold a header alone: it is empty or as it was before the
  run.
\<close>

theorem empty_alert_list_terminates_run:
  "write_csv_with_admins scope_name filename [] admin_details s
     = (Inl (Raised IndexError), s\<lparr>files := (files s)(filename \<mapsto> [])\<rparr>)
   \<and> (valid_scope report_scope \<and> feature_name f \<in> set features
        \<and> fetch_result report_scope f w = Inr [] \<longrightarrow>
        (\<exists>e. fst (run report_scope scope_name features w s) = Inl (Raised e))
        \<and> (fst (run report_scope scope_name (only_before report_scope f features) w s) = Inr ()
             \<longrightarrow> fst (run report_scope scope_name features w s) = Inl (Raised IndexError)
               \<and> files (snd (run report_scope scope_name features w s))
                    (csv_file report_scope f) = Some [])
        \<and> (files (snd (run report_scope scope_name features w s)) (csv_file report_scope f)
              = Some []
           \<or> files (snd (run report_scope scope_name features w s)) (csv_file report_scope f)
              = files s (csv_file report_scope f)))"
proof -
  have a: "write_csv_with_admins scope_name filename [] admin_details s
     = (Inl (Raised IndexError), s\<lparr>files := (files s)(filename \<mapsto> [])\<rparr>)"
    by (simp add: write_csv_eq write_outcome_def csv_of_def)
  have b: "(\<exists>e. fst (run report_scope scope_name features w s) = Inl (Raised e))
        \<and> (fst (run report_scope scope_name (only_before report_scope f features) w s) = Inr ()
             \<longrightarrow> fst (run report_scope scope_name features w s) = Inl (Raised IndexError)
               \<and> files (snd (run report_scope scope_name features w s))
                    (csv_file report_scope f) = Some [])
        \<and> (files (snd (run report_scope scope_name features w s)) (csv_file report_scope f)
              = Some []
           \<or> files (snd (run report_scope scope_name features w s)) (csv_file report_scope f)
              = files s (csv_file report_scope f))"
    if v: "valid_scope report_scope" and r: "feature_name f \<in> set features"
      and e: "fetch_result report_scope f w = Inr []"
  proof (cases "get_repo_admins w scope_name")
    case (Inl e0)
    then show ?thesis by (simp add: run_valid [OF v])
  next
    case (Inr admins)
    let ?ad = "Map.empty(scope_name \<mapsto> admins)"
    let ?s0 = "s\<lparr>stdout := stdout s @ [''Starting GitHub security report...''],
             calls := calls s @ [GetRepoAdmins scope_name]\<rparr>"
    let ?pre = "requested report_scope (only_before report_scope f features)"
    from requested_split [OF r] obtain post
      where sp: "requested report_scope features = ?pre @ f # post" by blast
    have st: "\<And>s'. fst (step report_scope f scope_name w ?ad s') = Inl (Raised IndexError)"
      using e by (simp add: step_result [OF v] write_outcome_def)
    have sf: "\<And>s'. files (snd (step report_scope f scope_name w ?ad s'))
                     (csv_file report_scope f) = Some []"
      using e by (simp add: step_files [OF v] csv_of_def)
    note eq = run_features_stops_at [of report_scope f scope_name w ?ad "Raised IndexError"
      ?pre post ?s0, OF st]
    have un: "files (snd (run_features report_scope scope_name w ?ad ?pre ?s0))
                (csv_file report_scope f) = files s (csv_file report_scope f)"
      using run_features_before_untouched [OF v not_in_before, of scope_name w ?ad f features ?s0]
      by simp
    show ?thesis
    proof (cases rule: run_features_result_cases [OF v, of scope_name w ?ad ?pre ?s0])
      case 1
      then show ?thesis using Inr by (simp add: run_valid [OF v] sp eq sf)
    next
      case (2 e')
      then show ?thesis using Inr un by (simp add: run_valid [OF v] sp eq)
    qed
  qed
  from a b show ?thesis by blast
qed

theorem empty_alert_list_terminates_run_witness:
  "valid_scope ''organization''
   \<and> feature_name CodeScanning \<in> set FEATURES
   \<and> fetch_result ''organization'' CodeScanning no_alerts_world = Inr []
   \<and> fst (run ''organization'' (Some ''octo'') FEATURES no_alerts_world (init_state Map.empty))
       = Inl (Raised IndexError)
   \<and> files (snd (run ''organization'' (Some ''octo'') FEATURES no_alerts_world
                   (init_state Map.empty))) (csv_file ''organization'' CodeScanning) = Some []"
proof -
  have h1: "valid_scope ''organization''" by code_simp
  have h2: "feature_name CodeScanning \<in> set FEATURES" by code_simp
  have h3: "fetch_result ''organization'' CodeScanning no_alerts_world = Inr []" by code_simp
  have r: "fst (run ''organization'' (Some ''octo'')
                  (only_before ''organization'' CodeScanning FEATURES)
                  no_alerts_world (init_state Map.empty)) = Inr ()" by code_simp
  from empty_alert_list_terminates_run [of "Some ''octo''" "''x''" Map.empty
      "init_state Map.empty" "''organization''" CodeScanning FEATURES no_alerts_world]
    h1 h2 h3 r
  show ?thesis by simp
qed

subsection \<open>The Admins column\<close>

text \<open>
  Claim C5. For a record without a \<open>repository\<close> key, the last cell of its row, the
  \<open>Admins\<close> column, is the admins found in the admin map under the scope name, joined
  by \<open>", "\<close>. In repository scope the admin map is the one built from the admins of the
  scope name, so the cell holds exactly those admins. The row of the record is in the
  file, at the place of the record, unless the writer has stopped at a record before it,
  one whose \<open>repository\<close> value cannot be hashed; a list of one record, and every list
  without such a value, gets all its rows.
\<close>

theorem admins_of_record_without_repository:
  assumes "i < length data" and "map_of (data ! i) ''repository'' = None"
  shows "\<exists>header rows.
      files (snd (write_csv_with_admins scope_name filename data admin_details s)) filename
        = Some (header # rows)
    \<and> length rows \<le> length data
    \<and> ((\<forall>j<i. hashable_repository (data ! j)) \<longrightarrow> i < length rows)
    \<and> ((\<forall>row\<in>set data. hashable_repository row) \<longrightarrow> length rows = length data)
    \<and> (i < length rows \<longrightarrow>
         last (rows ! i) = PStr (join '', '' (admins_or_empty admin_details scope_name))
       \<and> (\<forall>admins s0 s1. get_repo_admins w scope_name = Inr admins
            \<and> fetch_admin_details ''repository'' scope_name w s0 = (Inr admin_details, s1)
            \<longrightarrow> last (rows ! i) = PStr (join '', '' admins)))"
proof -
  from assms(1) obtain first rest where d: "data = first # rest" by (cases data) auto
  let ?header = "map (\<lambda>kv. PStr (fst kv)) first @ [PStr ''Admins'']"
  let ?rows = "written_rows scope_name admin_details data"
  have f: "files (snd (write_csv_with_admins scope_name filename data admin_details s)) filename
        = Some (?header # ?rows)"
    unfolding d by (simp add: write_file del: written_rows.simps)
  have n: "length ?rows \<le> length data" by (rule length_written_rows)
  have hi: "hashable_repository (data ! i)"
    using assms(2) by (simp add: hashable_repository_def)
  have re: "i < length ?rows" if "\<forall>j<i. hashable_repository (data ! j)"
    using assms(1) that hi by (rule written_rows_reaches)
  have al: "length ?rows = length data" if "\<forall>row\<in>set data. hashable_repository row"
    using that by (rule written_rows_all(1))
  have l: "last (?rows ! i) = PStr (join '', '' (admins_or_empty admin_details scope_name))"
    if "i < length ?rows"
  proof -
    from written_rows_nth [OF that]
      csv_row_of_no_repository [OF assms(2), of scope_name admin_details]
    have "?rows ! i = map snd (data ! i)
            @ [PStr (join '', '' (admins_or_empty admin_details scope_name))]" by simp
    then show ?thesis by simp
  qed
  have r: "last (?rows ! i) = PStr (join '', '' admins)"
    if "i < length ?rows" and "get_repo_admins w scope_name = Inr admins"
      and "fetch_admin_details ''repository'' scope_name w s0 = (Inr admin_details, s1)"
    for admins s0 s1
  proof -
    have "valid_scope ''repository''" by (simp add: valid_scope_def)
    from fetch_admin_details_valid [OF this, of scope_name w s0] that(2,3)
    have "admin_details = Map.empty(scope_name \<mapsto> admins)" by simp
    with l [OF that(1)] show ?thesis by (simp add: admins_or_empty_singleton)
  qed
  from f n re al l r show ?thesis by blast
qed

theorem admins_of_record_without_repository_witness:
  "(0::nat) < length one_alert
   \<and> map_of (one_alert ! 0) ''repository'' = None
   \<and> (\<exists>header rows.
        files (snd (write_csv_with_admins (Some ''o/r'') ''repository_code_scanning.csv''
                  one_alert (Map.empty(Some ''o/r'' \<mapsto> [''alice'', ''bob'']))
                  (init_state Map.empty))) ''repository_code_scanning.csv''
          = Some (header # rows)
        \<and> length rows = 1
        \<and> last (rows ! 0) = PStr ''alice, bob'')"
proof -
  have h1: "(0::nat) < length one_alert" by (simp add: one_alert_def)
  have h2: "map_of (one_alert ! 0) ''repository'' = None" by (simp add: one_alert_def)
  have h3: "\<forall>row\<in>set one_alert. hashable_repository row"
    by (simp add: one_alert_def hashable_repository_def)
  have e: "join '', '' (admins_or_empty (Map.empty(Some ''o/r'' \<mapsto> [''alice'', ''bob'']))
             (Some ''o/r'')) = ''alice, bob''"
    by (simp add: admins_or_empty_def)
  have n: "length one_alert = 1" by (simp add: one_alert_def)
  from admins_of_record_without_repository [OF h1 h2, of "Some ''o/r''"
      "''repository_code_scanning.csv''" "Map.empty(Some ''o/r'' \<mapsto> [''alice'', ''bob''])"
      "init_state Map.empty" "mock_world ''3.9.0'' all_enabled"]
  obtain header rows where
    a: "files (snd (write_csv_with_admins (Some ''o/r'') ''repository_code_scanning.csv''
                  one_alert (Map.empty(Some ''o/r'' \<mapsto> [''alice'', ''bob'']))
                  (init_state Map.empty))) ''repository_code_scanning.csv''
          = Some (header # rows)"
    and b: "(\<forall>row\<in>set one_alert. hashable_repository row) \<longrightarrow> length rows = length one_alert"
    and c: "0 < length rows \<longrightarrow>
         last (rows ! 0) = PStr (join '', ''
            (admins_or_empty (Map.empty(Some ''o/r'' \<mapsto> [''alice'', ''bob''])) (Some ''o/r'')))"
    by blast
  from b h3 n have "length rows = 1" by simp
  with a c e h1 h2 show ?thesis by auto
qed

text \<open>
  Claim C10. In organization and enterprise scope the admin lookup makes one call, for
  the scope name, and the admin map it builds has the scope name as its only key, so a
  row whose \<open>repository\<close> value differs from the scope name gets an empty \<open>Admins\<close>
  cell. This holds of the files of a run: when the fetch of a requested feature returns
  alerts and the features handled before it finish normally, the run leaves in the file of
  the feature a header and the rows of the records, up to the first record whose
  \<open>repository\<close> value cannot be hashed, and each of these rows whose record names a
  repository other than the scope name ends with an empty \<open>Admins\<close> cell.
\<close>

theorem org_enterprise_admin_map_single_key:
  assumes "report_scope = ''organization'' \<or> report_scope = ''enterprise''"
  shows "(\<forall>admin_details s'.
            fetch_admin_details report_scope scope_name w s = (Inr admin_details, s')
            \<longrightarrow> dom admin_details = {scope_name}
              \<and> calls s' = calls s @ [GetRepoAdmins scope_name]
              \<and> (\<forall>row v r. map_of row ''repository'' = Some v \<and> v \<noteq> env_val scope_name
                     \<and> csv_row_of scope_name admin_details row = Inr r
                   \<longrightarrow> last r = PStr ''''))
       \<and> (feature_name f \<in> set features
            \<and> fst (run report_scope scope_name (only_before report_scope f features) w s)
                = Inr ()
            \<and> fetch_result report_scope f w = Inr data \<and> data \<noteq> []
          \<longrightarrow> (\<exists>header rows.
                 files (snd (run report_scope scope_name features w s))
                   (csv_file report_scope f) = Some (header # rows)
               \<and> length rows \<le> length data
               \<and> ((\<forall>row\<in>set data. hashable_repository row) \<longrightarrow> length rows = length data)
               \<and> (\<forall>i v. i < length rows \<and> map_of (data ! i) ''repository'' = Some v
                        \<and> v \<noteq> env_val scope_name
                     \<longrightarrow> last (rows ! i) = PStr '''')))"
proof -
  have vs: "valid_scope report_scope" using assms by (auto simp: valid_scope_def)
  have cell: "last r = PStr ''''"
    if "map_of row ''repository'' = Some v" and "v \<noteq> env_val scope_name"
      and "csv_row_of scope_name (Map.empty(scope_name \<mapsto> admins)) row = Inr r"
    for row v r admins
  proof -
    from csv_row_of_Inr [OF that(3)] that(1) obtain found
      where g: "admin_get (Map.empty(scope_name \<mapsto> admins)) v = Inr found"
        and r: "r = map snd row @ [PStr (join '', '' found)]" by auto
    from admin_get_singleton [OF g] that(2) have "found = []" by simp
    with r show ?thesis by simp
  qed
  have a: "dom admin_details = {scope_name}
              \<and> calls s' = calls s @ [GetRepoAdmins scope_name]
              \<and> (\<forall>row v r. map_of row ''repository'' = Some v \<and> v \<noteq> env_val scope_name
                     \<and> csv_row_of scope_name admin_details row = Inr r
                   \<longrightarrow> last r = PStr '''')"
    if "fetch_admin_details report_scope scope_name w s = (Inr admin_details, s')"
    for admin_details s'
  proof -
    from fetch_admin_details_valid [OF vs, of scope_name w s] that
    obtain admins where m: "admin_details = Map.empty(scope_name \<mapsto> admins)"
      and c: "s' = s\<lparr>calls := calls s @ [GetRepoAdmins scope_name]\<rparr>"
      by (auto split: sum.splits)
    from cell [of _ _ admins] show ?thesis unfolding m c by auto
  qed
  have b: "\<exists>header rows.
                 files (snd (run report_scope scope_name features w s))
                   (csv_file report_scope f) = Some (header # rows)
               \<and> length rows \<le> length data
               \<and> ((\<forall>row\<in>set data. hashable_repository row) \<longrightarrow> length rows = length data)
               \<and> (\<forall>i v. i < length rows \<and> map_of (data ! i) ''repository'' = Some v
                        \<and> v \<noteq> env_val scope_name
                     \<longrightarrow> last (rows ! i) = PStr '''')"
    if r: "feature_name f \<in> set features"
      and p: "fst (run report_scope scope_name (only_before report_scope f features) w s)
                = Inr ()"
      and d: "fetch_result report_scope f w = Inr data" and ne: "data \<noteq> []"
  proof -
    from run_writes_file [OF vs r p d] obtain admins where
      fl: "files (snd (run report_scope scope_name features w s)) (csv_file report_scope f)
           = Some (csv_of scope_name (Map.empty(scope_name \<mapsto> admins)) data)" by blast
    let ?ad = "Map.empty(scope_name \<mapsto> admins)"
    let ?rows = "written_rows scope_name ?ad data"
    from ne obtain first rest where dd: "data = first # rest" by (cases data) auto
    let ?header = "map (\<lambda>kv. PStr (fst kv)) first @ [PStr ''Admins'']"
    have c: "csv_of scope_name ?ad data = ?header # ?rows"
      unfolding dd by (simp add: csv_of_def del: written_rows.simps)
    have n: "length ?rows \<le> length data" by (rule length_written_rows)
    have al: "length ?rows = length data" if "\<forall>row\<in>set data. hashable_repository row"
      using that by (rule written_rows_all(1))
    have e: "last (?rows ! i) = PStr ''''"
      if "i < length ?rows" and "map_of (data ! i) ''repository'' = Some v"
        and "v \<noteq> env_val scope_name" for i v
      using cell [OF that(2,3) written_rows_nth [OF that(1)]] .
    from fl c n al e show ?thesis by auto
  qed
  from a b show ?thesis by blast
qed

theorem org_enterprise_admin_map_single_key_witness:
  "(''organization'' = ''organization'' \<or> ''organization'' = ''enterprise'')
   \<and> feature_name Dependabot \<in> set FEATURES
   \<and> fst (run ''organization'' (Some ''octo'')
            (only_before ''organization'' Dependabot FEATURES) org_world
            (init_state Map.empty)) = Inr ()
   \<and> fetch_result ''organization'' Dependabot org_world = Inr org_alerts
   \<and> org_alerts \<noteq> []
   \<and> (\<exists>header rows.
        files (snd (run ''organization'' (Some ''octo'') FEATURES org_world
                      (init_state Map.empty))) ''organization_dependabot.csv''
          = Some (header # rows)
        \<and> length rows = 2
        \<and> last (rows ! 0) = PStr '''' \<and> last (rows ! 1) = PStr '''')"
proof -
  have h1: "''organization'' = ''organization'' \<or> ''organization'' = ''enterprise''" by simp
  have h2: "feature_name Dependabot \<in> set FEATURES" by code_simp
  have h3: "fst (run ''organization'' (Some ''octo'')
            (only_before ''organization'' Dependabot FEATURES) org_world
            (init_state Map.empty)) = Inr ()" by code_simp
  have h4: "fetch_result ''organization'' Dependabot org_world = Inr org_alerts"
    by (simp add: fetch_result_simps org_world_def mock_world_def)
  have h5: "org_alerts \<noteq> []" by (simp add: org_alerts_def)
  have h6: "\<forall>row\<in>set org_alerts. hashable_repository row"
    by (simp add: org_alerts_def hashable_repository_def)
  have h7: "length org_alerts = 2"
    "map_of (org_alerts ! 0) ''repository'' = Some (PStr ''octo/app'')"
    "map_of (org_alerts ! 1) ''repository'' = Some (PStr ''octo/web'')"
    "PStr ''octo/app'' \<noteq> env_val (Some ''octo'')"
    "PStr ''octo/web'' \<noteq> env_val (Some ''octo'')"
    by (simp_all add: org_alerts_def env_val_def)
  have h8: "csv_file ''organization'' Dependabot = ''organization_dependabot.csv''"
    by (simp add: csv_file_simps)
  from org_enterprise_admin_map_single_key [OF h1, of "Some ''octo''" org_world
      "init_state Map.empty" Dependabot FEATURES org_alerts] h2 h3 h4 h5
  obtain header rows where
    a: "files (snd (run ''organization'' (Some ''octo'') FEATURES org_world
                      (init_state Map.empty))) (csv_file ''organization'' Dependabot)
          = Some (header # rows)"
    and b: "(\<forall>row\<in>set org_alerts. hashable_repository row) \<longrightarrow> length rows = length org_alerts"
    and c: "\<forall>i v. i < length rows \<and> map_of (org_alerts ! i) ''repository'' = Some v
                        \<and> v \<noteq> env_val (Some ''octo'')
                     \<longrightarrow> last (rows ! i) = PStr ''''"
    by blast
  from b h6 h7 have n: "length rows = 2" by simp
  from c n h7 have "last (rows ! 0) = PStr ''''" "last (rows ! 1) = PStr ''''" by auto
  with a n h1 h2 h3 h4 h5 h8 show ?thesis by auto
qed
subsection \<open>The order of the fetches\<close>

text \<open>
  Claim C7. The enterprise scope handles secret scanning, then code scanning, then
  Dependabot; the organization and repository scopes handle code scanning, then
  Dependabot, then secret scanning. In a run from a state with no call made, the features
  that the API calls belong to, taken in the order of the calls, are an initial part of
  the requested features in the order of the scope, and all of them when the run ends
  normally: a feature that is not requested is skipped, and the others keep their order.
\<close>

theorem fetches_in_scope_order:
  assumes "valid_scope report_scope"
  shows "scope_order ''enterprise'' = [SecretScanning, CodeScanning, Dependabot]
     \<and> scope_order ''organization'' = [CodeScanning, Dependabot, SecretScanning]
     \<and> scope_order ''repository'' = [CodeScanning, Dependabot, SecretScanning]
     \<and> (\<exists>rest. filter (\<lambda>f. feature_name f \<in> set features) (scope_order report_scope)
           = fetched_features (calls (snd (run report_scope scope_name features w
                                             (init_state disk)))) @ rest)
     \<and> (fst (run report_scope scope_name features w (init_state disk)) = Inr ()
          \<longrightarrow> fetched_features (calls (snd (run report_scope scope_name features w
                                             (init_state disk))))
              = filter (\<lambda>f. feature_name f \<in> set features) (scope_order report_scope))"
proof -
  have o: "scope_order ''enterprise'' = [SecretScanning, CodeScanning, Dependabot]
     \<and> scope_order ''organization'' = [CodeScanning, Dependabot, SecretScanning]
     \<and> scope_order ''repository'' = [CodeScanning, Dependabot, SecretScanning]"
    by (simp add: scope_order_def)
  have g: "fetched_features (GetRepoAdmins scope_name # t) = fetched_features t" for t
    by (simp add: fetched_features_def List.map_filter_def)
  have t: "(\<exists>rest. requested report_scope features
           = fetched_features (calls (snd (run report_scope scope_name features w
                                             (init_state disk)))) @ rest)
     \<and> (fst (run report_scope scope_name features w (init_state disk)) = Inr ()
          \<longrightarrow> fetched_features (calls (snd (run report_scope scope_name features w
                                             (init_state disk))))
              = requested report_scope features)"
  proof (cases "get_repo_admins w scope_name")
    case (Inl e)
    then show ?thesis
      by (simp add: run_valid [OF assms] init_state_def fetched_features_def List.map_filter_def)
  next
    case (Inr admins)
    let ?s0 = "(init_state disk)\<lparr>stdout := stdout (init_state disk)
                    @ [''Starting GitHub security report...''],
                  calls := calls (init_state disk) @ [GetRepoAdmins scope_name]\<rparr>"
    from run_features_trace [of report_scope "requested report_scope features" scope_name w
        "Map.empty(scope_name \<mapsto> admins)" ?s0, OF assms distinct_requested]
    obtain t rest where
      c: "calls (snd (run_features report_scope scope_name w (Map.empty(scope_name \<mapsto> admins))
                        (requested report_scope features) ?s0)) = calls ?s0 @ t"
      and p: "requested report_scope features = fetched_features t @ rest"
      and f: "fst (run_features report_scope scope_name w (Map.empty(scope_name \<mapsto> admins))
                        (requested report_scope features) ?s0) = Inr ()
                \<longrightarrow> fetched_features t = requested report_scope features"
      by blast
    have "calls ?s0 @ t = GetRepoAdmins scope_name # t" by (simp add: init_state_def)
    with c p f Inr show ?thesis
      by (simp add: run_valid [OF assms] g)
  qed
  from o t show ?thesis by (simp add: requested_def)
qed

theorem fetches_in_scope_order_witness:
  "valid_scope ''enterprise''
   \<and> fst (run ''enterprise'' (Some ''acme'') [''dependabot'', ''codescanning'']
            (mock_world ''3.9.0'' all_enabled) (init_state Map.empty)) = Inr ()
   \<and> fetched_features (calls (snd (run ''enterprise'' (Some ''acme'')
        [''dependabot'', ''codescanning''] (mock_world ''3.9.0'' all_enabled)
        (init_state Map.empty)))) = [CodeScanning, Dependabot]"
proof -
  have h: "valid_scope ''enterprise''" by code_simp
  have r: "fst (run ''enterprise'' (Some ''acme'') [''dependabot'', ''codescanning'']
            (mock_world ''3.9.0'' all_enabled) (init_state Map.empty)) = Inr ()"
    by code_simp
  have e: "filter (\<lambda>f. feature_name f \<in> set [''dependabot'', ''codescanning''])
             (scope_order ''enterprise'') = [CodeScanning, Dependabot]"
    by (simp add: scope_order_def)
  from fetches_in_scope_order [OF h, of "[''dependabot'', ''codescanning'']" "Some ''acme''"
      "mock_world ''3.9.0'' all_enabled" Map.empty] h r e
  show ?thesis by simp
qed

subsection \<open>Code scanning in enterprise scope\<close>

text \<open>
  Claim C4. Take a run in enterprise scope, from a state with no call made, in which
  code scanning is requested and is reached, that is, the run of what the scope handles
  before it ends normally. If the server version is \<open>3.6.1\<close>, the calls made for code
  scanning are the version probe, the repository report and
  \<open>list_enterprise_server_cs_alerts\<close> on that report, and the enterprise-wide fetch is
  not among them. If the version is \<open>3.9.0\<close>, they are the version probe and
  \<open>list_enterprise_cloud_cs_alerts\<close>. On both paths the alerts fetched are written to
  \<open>enterprise_code_scanning.csv\<close>.
\<close>

theorem enterprise_code_scanning_by_version:
  assumes "''codescanning'' \<in> set features"
    and "fst (run ''enterprise'' scope_name (only_before ''enterprise'' CodeScanning features) w
                (init_state disk)) = Inr ()"
  shows "(get_enterprise_version w = Inr ''3.6.1'' \<longrightarrow>
           (\<forall>repo_list. get_repo_report w = Inr repo_list \<longrightarrow>
              calls_of CodeScanning
                  (calls (snd (run ''enterprise'' scope_name features w (init_state disk))))
                = [GetEnterpriseVersion, GetRepoReport,
                   Fetch (ListEnterpriseServerCsAlerts repo_list)]
              \<and> (\<forall>cs_list admins.
                    fetch_alerts w (ListEnterpriseServerCsAlerts repo_list) = Inr cs_list
                    \<and> get_repo_admins w scope_name = Inr admins \<longrightarrow>
                    files (snd (run ''enterprise'' scope_name features w (init_state disk)))
                        ''enterprise_code_scanning.csv''
                      = Some (csv_of scope_name (Map.empty(scope_name \<mapsto> admins)) cs_list))))
       \<and> (get_enterprise_version w = Inr ''3.9.0'' \<longrightarrow>
            calls_of CodeScanning
                (calls (snd (run ''enterprise'' scope_name features w (init_state disk))))
              = [GetEnterpriseVersion, Fetch ListEnterpriseCloudCsAlerts]
            \<and> (\<forall>cs_list admins.
                  fetch_alerts w ListEnterpriseCloudCsAlerts = Inr cs_list
                  \<and> get_repo_admins w scope_name = Inr admins \<longrightarrow>
                  files (snd (run ''enterprise'' scope_name features w (init_state disk)))
                      ''enterprise_code_scanning.csv''
                    = Some (csv_of scope_name (Map.empty(scope_name \<mapsto> admins)) cs_list)))"
proof -
  have v: "valid_scope ''enterprise''" by (simp add: valid_scope_def)
  have r: "feature_name CodeScanning \<in> set features" using assms(1) by simp
  from assms(2) obtain admins where a: "get_repo_admins w scope_name = Inr admins"
    by (cases "get_repo_admins w scope_name") (simp_all add: run_valid [OF v])
  let ?ad = "Map.empty(scope_name \<mapsto> admins)"
  let ?s0 = "(init_state disk)\<lparr>stdout := stdout (init_state disk)
                    @ [''Starting GitHub security report...''],
                  calls := calls (init_state disk) @ [GetRepoAdmins scope_name]\<rparr>"
  have f: "run ''enterprise'' scope_name fs w (init_state disk)
             = run_features ''enterprise'' scope_name w ?ad (requested ''enterprise'' fs) ?s0"
    for fs
    using a by (simp add: run_valid [OF v])
  have c0: "calls_of CodeScanning (calls ?s0) = []"
    by (simp add: calls_of_def init_state_def)
  from run_features_reaches [OF v r, of scope_name w ?ad ?s0] assms(2) c0
  obtain s1 where s1: "calls_of CodeScanning (calls s1) = []"
    and c: "calls_of CodeScanning
              (calls (snd (run ''enterprise'' scope_name features w (init_state disk))))
           = calls_of CodeScanning
               (calls (snd (step ''enterprise'' CodeScanning scope_name w ?ad s1)))"
    and d: "files (snd (run ''enterprise'' scope_name features w (init_state disk)))
              ''enterprise_code_scanning.csv''
           = files (snd (step ''enterprise'' CodeScanning scope_name w ?ad s1))
               ''enterprise_code_scanning.csv''"
    by (auto simp: f csv_file_simps)
  have p1: "startswith ''3.6.1'' ''3.5'' \<or> startswith ''3.6.1'' ''3.6''" by simp
  have p2: "\<not> (startswith ''3.9.0'' ''3.5'' \<or> startswith ''3.9.0'' ''3.6'')" by simp
  show ?thesis
    using enterprise_cs_server [OF p1, of w _ scope_name ?ad s1]
      enterprise_cs_cloud [OF p2, of w scope_name ?ad s1] a s1
    by (auto simp: c d calls_of_code_scanning)
qed

theorem enterprise_code_scanning_by_version_witness:
  "''codescanning'' \<in> set FEATURES
   \<and> fst (run ''enterprise'' (Some ''acme'') (only_before ''enterprise'' CodeScanning FEATURES)
            (mock_world ''3.6.1'' all_enabled) (init_state Map.empty)) = Inr ()
   \<and> calls_of CodeScanning
        (calls (snd (run ''enterprise'' (Some ''acme'') FEATURES
                       (mock_world ''3.6.1'' all_enabled) (init_state Map.empty))))
       = [GetEnterpriseVersion, GetRepoReport, Fetch (ListEnterpriseServerCsAlerts [''o/r''])]
   \<and> fst (run ''enterprise'' (Some ''acme'') (only_before ''enterprise'' CodeScanning FEATURES)
            (mock_world ''3.9.0'' all_enabled) (init_state Map.empty)) = Inr ()
   \<and> calls_of CodeScanning
        (calls (snd (run ''enterprise'' (Some ''acme'') FEATURES
                       (mock_world ''3.9.0'' all_enabled) (init_state Map.empty))))
       = [GetEnterpriseVersion, Fetch ListEnterpriseCloudCsAlerts]
   \<and> files (snd (run ''enterprise'' (Some ''acme'') FEATURES
                       (mock_world ''3.9.0'' all_enabled) (init_state Map.empty)))
        ''enterprise_code_scanning.csv''
       = Some (csv_of (Some ''acme'') (Map.empty(Some ''acme'' \<mapsto> [''alice'', ''bob'']))
                 one_alert)"
proof -
  have h1: "''codescanning'' \<in> set FEATURES" by code_simp
  have h2: "fst (run ''enterprise'' (Some ''acme'')
                   (only_before ''enterprise'' CodeScanning FEATURES)
                   (mock_world ''3.6.1'' all_enabled) (init_state Map.empty)) = Inr ()"
    by code_simp
  have h3: "fst (run ''enterprise'' (Some ''acme'')
                   (only_before ''enterprise'' CodeScanning FEATURES)
                   (mock_world ''3.9.0'' all_enabled) (init_state Map.empty)) = Inr ()"
    by code_simp
  have w: "get_enterprise_version (mock_world ''3.6.1'' all_enabled) = Inr ''3.6.1''"
    "get_repo_report (mock_world ''3.6.1'' all_enabled) = Inr [''o/r'']"
    "get_enterprise_version (mock_world ''3.9.0'' all_enabled) = Inr ''3.9.0''"
    "fetch_alerts (mock_world ''3.9.0'' all_enabled) ListEnterpriseCloudCsAlerts = Inr one_alert"
    "get_repo_admins (mock_world ''3.9.0'' all_enabled) (Some ''acme'') = Inr [''alice'', ''bob'']"
    by (simp_all add: mock_world_def all_enabled_def)
  from enterprise_code_scanning_by_version [OF h1 h2] w(1,2)
  have a: "calls_of CodeScanning
        (calls (snd (run ''enterprise'' (Some ''acme'') FEATURES
                       (mock_world ''3.6.1'' all_enabled) (init_state Map.empty))))
       = [GetEnterpriseVersion, GetRepoReport, Fetch (ListEnterpriseServerCsAlerts [''o/r''])]"
    by blast
  from enterprise_code_scanning_by_version [OF h1 h3] w(3,4,5)
  have b: "calls_of CodeScanning
        (calls (snd (run ''enterprise'' (Some ''acme'') FEATURES
                       (mock_world ''3.9.0'' all_enabled) (init_state Map.empty))))
       = [GetEnterpriseVersion, Fetch ListEnterpriseCloudCsAlerts]
     \<and> files (snd (run ''enterprise'' (Some ''acme'') FEATURES
                       (mock_world ''3.9.0'' all_enabled) (init_state Map.empty)))
        ''enterprise_code_scanning.csv''
       = Some (csv_of (Some ''acme'') (Map.empty(Some ''acme'' \<mapsto> [''alice'', ''bob'']))
                 one_alert)"
    by blast
  from h1 h2 h3 a b show ?thesis by simp
qed

end
